theory Spec2Isabelle
  imports Complex_Main "HOL-Library.Log_Nat"
begin

section \<open>Data model of \<open>Inference.py\<close>\<close>

text \<open>
  The event log is the pandas table read by \<open>Inference.__init__\<close>: a sequence of rows
  \<open>(case:concept:name, observation, time:timestamp)\<close>, kept in file order.  Case
  identifiers and observation labels are only compared for equality, timestamps are
  compared with \<open>\<le>\<close> and \<open><\<close>, so the three column types are type parameters (the
  timestamp type a linear order).

  Python's floats are IEEE 754 doubles; the section on double-precision arithmetic
  below models the rounding of every division, sum and difference the class computes.
\<close>

datatype error = ValueError | ZeroDivisionError | KeyError

type_synonym ('c, 'o, 't) row = "'c \<times> 'o \<times> 't"

definition row_case :: "('c, 'o, 't) row \<Rightarrow> 'c" where
  "row_case r = fst r"

definition row_obs :: "('c, 'o, 't) row \<Rightarrow> 'o" where
  "row_obs r = fst (snd r)"

definition row_time :: "('c, 'o, 't) row \<Rightarrow> 't" where
  "row_time r = snd (snd r)"

text \<open>Sequencing of computations that may raise: the first exception aborts.\<close>

definition bind_e :: "error + 'a \<Rightarrow> ('a \<Rightarrow> error + 'b) \<Rightarrow> error + 'b" where
  "bind_e m f = (case m of Inl e \<Rightarrow> Inl e | Inr v \<Rightarrow> f v)"

section \<open>The window primitives\<close>

text \<open>
  \<open>get_overlap\<close>: unpack both windows, swap them when the second one starts strictly
  earlier, then answer \<open>None\<close> when the first ends before the second starts and
  \<open>(p, s)\<close> otherwise.
\<close>

definition get_overlap :: "'t::linorder \<times> 't \<Rightarrow> 't \<times> 't \<Rightarrow> ('t \<times> 't) option" where
  "get_overlap window1 window2 =
     (let (r, s) = window1;
          (p, q) = window2;
          ((r, s), (p, q)) = (if p < r then (window2, window1) else ((r, s), (p, q)))
      in if s < p then None else Some (p, s))"

text \<open>\<open>get_only_x\<close>: the three branches of the source, in the source's order.\<close>

definition get_only_x :: "'t::linorder \<times> 't \<Rightarrow> 't \<times> 't \<Rightarrow> ('t \<times> 't) option" where
  "get_only_x window_c window_x =
     (let (r, s) = window_c;
          (p, q) = window_x
      in if r < p then Some (s, q)
         else if p < r then Some (p, r)
         else None)"

text \<open>
  \<open>count_effect\<close>: \<open>e_trues\<close> is a dictionary from timepoints to the list of cases seen
  at that timepoint; it is iterated in insertion order, so it is an association list
  here.  The inner loop over the dictionary stops at the first qualifying timepoint
  (\<open>break\<close>), having added one to \<open>res\<close>.
\<close>

fun count_effect_scan :: "('t::linorder \<times> 'c list) list \<Rightarrow> 't \<Rightarrow> 't \<Rightarrow> 'c list \<Rightarrow> nat \<Rightarrow> nat" where
  "count_effect_scan [] ws we intersection res = res"
| "count_effect_scan ((e, e_cases) # rest) ws we intersection res =
     (let inter_cases = filter (\<lambda>e_case. e_case \<in> set intersection) e_cases
      in if e \<ge> ws \<and> e \<le> we \<and> length inter_cases \<noteq> 0 then res + 1
         else count_effect_scan rest ws we intersection res)"

fun count_effect_loop ::
  "('t::linorder \<times> 'c list) list \<Rightarrow> (('t \<times> 't) \<times> 'c list) list \<Rightarrow> nat \<Rightarrow> nat" where
  "count_effect_loop e_trues [] res = res"
| "count_effect_loop e_trues (((ws, we), intersection) # windows) res =
     count_effect_loop e_trues windows (count_effect_scan e_trues ws we intersection res)"

definition count_effect ::
  "('t::linorder \<times> 'c list) list \<Rightarrow> (('t \<times> 't) \<times> 'c list) list \<Rightarrow> nat" where
  "count_effect e_trues windows = count_effect_loop e_trues windows 0"

text \<open>
  The reading of an entry of \<open>windows\<close> that \<open>count_effect\<close> is meant to count: some
  effect timepoint lies in the closed interval and one of its cases is a case of the
  entry.
\<close>

definition effect_in_window :: "('t::linorder \<times> 'c list) list \<Rightarrow> ('t \<times> 't) \<times> 'c list \<Rightarrow> bool" where
  "effect_in_window e_trues entry =
     list_ex (\<lambda>(e, e_cases). fst (fst entry) \<le> e \<and> e \<le> snd (fst entry)
                \<and> list_ex (\<lambda>k. k \<in> set (snd entry)) e_cases) e_trues"

text \<open>
  \<open>get_ands\<close> and \<open>get_nots\<close> are the callers of the two interval functions.  The
  dictionaries \<open>c_trues\<close> and \<open>x_trues\<close> map a timepoint to the list of cases seen at
  it; a loop over a dictionary visits its keys in insertion order and reads the value
  of each key, so it is a loop over the association list.  Every window the callers
  build is a timepoint shifted by the same pair \<open>(r, s)\<close>, and a candidate of \<open>x\<close> lies
  within \<open>s - r\<close> of the timepoint of \<open>c\<close>.
\<close>

fun get_ands_candidates ::
  "'t::linordered_ab_group_add \<times> 't \<Rightarrow> 't \<times> 't \<Rightarrow> 'c list \<Rightarrow> ('t \<times> 'c list) list
     \<Rightarrow> (('t \<times> 't) \<times> 'c list) list \<Rightarrow> (('t \<times> 't) \<times> 'c list) list" where
  "get_ands_candidates window window1 c_cases [] and_list = and_list"
| "get_ands_candidates window window1 c_cases ((cand, x_cases) # x_candidates) and_list =
     (let (r, s) = window;
          intersection = filter (\<lambda>c. c \<in> set x_cases) c_cases;
          window2 = (cand + r, cand + s)
      in get_ands_candidates window window1 c_cases x_candidates
           (case get_overlap window1 window2 of
              None \<Rightarrow> and_list
            | Some overlap \<Rightarrow>
                if length intersection \<noteq> 0 then and_list @ [(overlap, intersection)]
                else and_list))"

fun get_ands_loop ::
  "'t::linordered_ab_group_add \<times> 't \<Rightarrow> ('t \<times> 'c list) list \<Rightarrow> ('t \<times> 'c list) list
     \<Rightarrow> (('t \<times> 't) \<times> 'c list) list \<Rightarrow> (('t \<times> 't) \<times> 'c list) list" where
  "get_ands_loop window [] x_trues and_list = and_list"
| "get_ands_loop window ((t, c_cases) # c_trues) x_trues and_list =
     (let (r, s) = window;
          range = s - r;
          window1 = (t + r, t + s);
          x_candidates = filter (\<lambda>(key, x_cases). key \<ge> t - range \<and> key \<le> t + range) x_trues
      in get_ands_loop window c_trues x_trues
           (get_ands_candidates window window1 c_cases x_candidates and_list))"

definition get_ands ::
  "('t::linordered_ab_group_add \<times> 'c list) list \<Rightarrow> ('t \<times> 'c list) list \<Rightarrow> 't \<times> 't
     \<Rightarrow> (('t \<times> 't) \<times> 'c list) list" where
  "get_ands c_trues x_trues window = get_ands_loop window c_trues x_trues []"

fun get_nots_candidates ::
  "'t::linordered_ab_group_add \<times> 't \<Rightarrow> 't \<times> 't \<Rightarrow> 'c list \<Rightarrow> ('t \<times> 'c list) list
     \<Rightarrow> (('t \<times> 't) \<times> 'c list) list \<Rightarrow> (('t \<times> 't) \<times> 'c list) list" where
  "get_nots_candidates window window1 c_cases [] not_list = not_list"
| "get_nots_candidates window window1 c_cases ((cand, x_cases) # x_candidates) not_list =
     (let (r, s) = window;
          intersection = filter (\<lambda>c. c \<in> set x_cases) c_cases;
          window2 = (cand + r, cand + s);
          not_list = (if length intersection = 0 then not_list @ [(window2, intersection)]
                      else not_list)
      in get_nots_candidates window window1 c_cases x_candidates
           (case get_only_x window1 window2 of
              None \<Rightarrow> not_list
            | Some only_x \<Rightarrow> not_list @ [(only_x, intersection)]))"

fun get_nots_loop ::
  "'t::linordered_ab_group_add \<times> 't \<Rightarrow> ('t \<times> 'c list) list \<Rightarrow> ('t \<times> 'c list) list
     \<Rightarrow> (('t \<times> 't) \<times> 'c list) list \<Rightarrow> (('t \<times> 't) \<times> 'c list) list" where
  "get_nots_loop window [] x_trues not_list = not_list"
| "get_nots_loop window ((t, c_cases) # c_trues) x_trues not_list =
     (let (r, s) = window;
          range = s - r;
          window1 = (t + r, t + s);
          x_candidates = filter (\<lambda>(key, x_cases). key \<ge> t - range \<and> key \<le> t + range) x_trues
      in get_nots_loop window c_trues x_trues
           (get_nots_candidates window window1 c_cases x_candidates not_list))"

definition get_nots ::
  "('t::linordered_ab_group_add \<times> 'c list) list \<Rightarrow> ('t \<times> 'c list) list \<Rightarrow> 't \<times> 't
     \<Rightarrow> (('t \<times> 't) \<times> 'c list) list" where
  "get_nots c_trues x_trues window = get_nots_loop window c_trues x_trues []"


section \<open>Double-precision arithmetic\<close>

text \<open>
  Python's \<open>/\<close> on two integers, and \<open>+\<close>, \<open>-\<close> and \<open>/\<close> on floats, return the IEEE 754
  binary64 number nearest to the exact result, ties going to the even significand.  A
  float is modelled by the rational number it denotes, and \<open>double q\<close> is the binary64
  number nearest to the rational \<open>q\<close>: \<open>binade q\<close> is the exponent \<open>e\<close> with
  \<open>2^e \<le> |q| < 2^(e+1)\<close>, the spacing of the doubles around \<open>q\<close> is \<open>2^(e - 52)\<close>, and
  \<open>2^(-1074)\<close> in the subnormal range.  The overflow threshold \<open>2^1024\<close> is not modelled:
  every quotient the class forms has a numerator that is at most its denominator, and
  a sum of \<open>n\<close> probability differences is at most \<open>n\<close> in absolute value.
\<close>

definition binade :: "rat \<Rightarrow> int" where
  "binade q =
     (let (n, d) = quotient_of \<bar>q\<bar>;
          e0 = bitlen n - bitlen d
      in if 2 powi e0 \<le> \<bar>q\<bar> then e0 else e0 - 1)"

definition ulp :: "rat \<Rightarrow> rat" where
  "ulp q = 2 powi (max (binade q - 52) (- 1074))"

definition round_half_even :: "rat \<Rightarrow> int" where
  "round_half_even z =
     (let f = \<lfloor>z\<rfloor>;
          r = z - of_int f
      in if r < 1 / 2 then f
         else if 1 / 2 < r then f + 1
         else if even f then f else f + 1)"

definition double :: "rat \<Rightarrow> rat" where
  "double q = (if q = 0 then 0 else of_int (round_half_even (q / ulp q)) * ulp q)"

text \<open>
  \<open>a / b\<close> on two integers; \<open>x + y\<close> and \<open>x - y\<close> on floats; \<open>x / n\<close> on a float and an
  integer, which converts the integer to the nearest double first.  Division raises
  \<open>ZeroDivisionError\<close> on a zero divisor.
\<close>

definition truediv :: "nat \<Rightarrow> nat \<Rightarrow> error + rat" where
  "truediv a b = (if b = 0 then Inl ZeroDivisionError else Inr (double (of_nat a / of_nat b)))"

definition float_add :: "rat \<Rightarrow> rat \<Rightarrow> rat" where
  "float_add x y = double (x + y)"

definition float_sub :: "rat \<Rightarrow> rat \<Rightarrow> rat" where
  "float_sub x y = double (x - y)"

definition float_div_int :: "rat \<Rightarrow> nat \<Rightarrow> error + rat" where
  "float_div_int x n =
     (if n = 0 then Inl ZeroDivisionError else Inr (double (x / double (of_nat n))))"


section \<open>The pandas and numpy operations the code uses\<close>

text \<open>
  \<open>Series.unique()\<close> keeps the first occurrence of every value, in order of appearance.
\<close>

definition unique :: "'a list \<Rightarrow> 'a list" where
  "unique xs = rev (remdups (rev xs))"

text \<open>
  The row test of \<open>Series.isin\<close>, elementwise comparison of an array with a value,
  \<open>np.any\<close>, \<open>np.all\<close> and selection by an array of booleans (\<open>values[flags]\<close>).
\<close>

definition isin :: "'a \<Rightarrow> 'a list \<Rightarrow> bool" where
  "isin v values = (v \<in> set values)"

definition np_eq :: "'a list \<Rightarrow> 'a \<Rightarrow> bool list" where
  "np_eq xs v = map (\<lambda>x. x = v) xs"

definition np_ne :: "'a list \<Rightarrow> 'a \<Rightarrow> bool list" where
  "np_ne xs v = map (\<lambda>x. x \<noteq> v) xs"

definition np_any :: "bool list \<Rightarrow> bool" where
  "np_any flags = list_ex (\<lambda>b. b) flags"

definition np_all :: "bool list \<Rightarrow> bool" where
  "np_all flags = list_all (\<lambda>b. b) flags"

definition np_select :: "'a list \<Rightarrow> bool list \<Rightarrow> 'a list" where
  "np_select xs flags = map fst (filter snd (zip xs flags))"

text \<open>\<open>np.min\<close> and \<open>np.max\<close> raise \<open>ValueError\<close> on an empty array.\<close>

fun np_min :: "'t::linorder list \<Rightarrow> error + 't" where
  "np_min [] = Inl ValueError"
| "np_min (x # xs) = Inr (fold min xs x)"

fun np_max :: "'t::linorder list \<Rightarrow> error + 't" where
  "np_max [] = Inl ValueError"
| "np_max (x # xs) = Inr (fold max xs x)"

section \<open>The class \<open>Inference\<close>\<close>

text \<open>
  The instance fields that the prima-facie test and the epsilon scoring read or write.
  \<open>populate_vars\<close> also fills \<open>dict_by_obs\<close>, \<open>alphabet\<close> and \<open>max_time\<close>, and \<open>pb\<close>
  only selects the progress bar; none of the operations below reads them.
\<close>

record ('c, 'o, 't) inference =
  source :: "('c, 'o, 't) row list"
  events :: nat
  traces :: nat
  hypotheses :: "('o \<times> 'o) list"
  prima_facie :: "'o \<rightharpoonup> 'o list"

definition populate_vars :: "('c, 'o, 't) inference \<Rightarrow> ('c, 'o, 't) inference" where
  "populate_vars self =
     self\<lparr>events := length (source self),
          traces := length (unique (map row_case (source self)))\<rparr>"

text \<open>\<open>__init__\<close>: the fields are initialised, then \<open>populate_vars\<close> runs.\<close>

definition init :: "('c, 'o, 't) row list \<Rightarrow> ('c, 'o, 't) inference" where
  "init rows =
     populate_vars \<lparr>source = rows, events = 0, traces = 0, hypotheses = [],
                    prima_facie = Map.empty\<rparr>"

definition generate_hypotheses_for_effects ::
  "('c, 'o, 't) inference \<Rightarrow> 'o list \<Rightarrow> 'o list \<Rightarrow> ('c, 'o, 't) inference" where
  "generate_hypotheses_for_effects self causes effects =
     self\<lparr>hypotheses :=
            concat (map (\<lambda>effect. map (\<lambda>cause. (cause, effect))
                                      (filter (\<lambda>cause. cause \<noteq> effect) causes)) effects)\<rparr>"

subsection \<open>\<open>test_cause_effect_pair\<close>\<close>

text \<open>
  The body of the loop over \<open>c_e_cases\<close>: the rows of \<open>subset\<close> of one case, the test
  \<open>effect in obs_values\<close>, and the comparison of the earliest cause timestamp with the
  latest effect timestamp.
\<close>

definition c_before_e_body ::
  "('c, 'o, 't::linorder) row list \<Rightarrow> 'o \<Rightarrow> 'o \<Rightarrow> 'c \<Rightarrow> nat \<Rightarrow> error + nat" where
  "c_before_e_body subset_df cause effect case_id c_before_e =
     (let trace = filter (\<lambda>r. row_case r = case_id) subset_df;
          obs_values = map row_obs trace;
          time_values = map row_time trace
      in if effect \<in> set obs_values then
           (let c_times = np_select time_values (np_eq obs_values cause);
                e_times = np_select time_values (np_eq obs_values effect)
            in bind_e (np_min c_times) (\<lambda>min_c.
               bind_e (np_max e_times) (\<lambda>max_e.
               Inr (if min_c \<le> max_e then c_before_e + 1 else c_before_e))))
         else Inr c_before_e)"

fun c_before_e_loop ::
  "('c, 'o, 't::linorder) row list \<Rightarrow> 'o \<Rightarrow> 'o \<Rightarrow> 'c list \<Rightarrow> nat \<Rightarrow> error + nat" where
  "c_before_e_loop subset_df cause effect [] c_before_e = Inr c_before_e"
| "c_before_e_loop subset_df cause effect (case_id # cases) c_before_e =
     (case c_before_e_body subset_df cause effect case_id c_before_e of
        Inl e \<Rightarrow> Inl e
      | Inr c_before_e' \<Rightarrow> c_before_e_loop subset_df cause effect cases c_before_e')"

text \<open>
  \<open>c_e_cases\<close> is a Python set; the loop only counts, so the order in which the set is
  iterated does not show in the result, and the model iterates it in the order of
  \<open>c_traces\<close>.
\<close>

definition test_cause_effect_pair ::
  "('c, 'o, 't::linorder) inference \<Rightarrow> 'o \<Rightarrow> 'o \<Rightarrow> error + (nat \<times> nat \<times> nat)" where
  "test_cause_effect_pair self cause effect =
     (let subset_df = filter (\<lambda>r. isin (row_obs r) [cause, effect]) (source self);
          c_traces = unique (map row_case (filter (\<lambda>r. row_obs r = cause) subset_df));
          e_traces = unique (map row_case (filter (\<lambda>r. row_obs r = effect) subset_df));
          c_e_cases = filter (\<lambda>k. k \<in> set e_traces) c_traces
      in bind_e (c_before_e_loop subset_df cause effect c_e_cases 0) (\<lambda>c_before_e.
         Inr (c_before_e, length c_traces, length e_traces)))"

subsection \<open>\<open>is_prima_facie\<close> and \<open>test_for_prima_facie\<close>\<close>

definition is_prima_facie ::
  "('c, 'o, 't) inference \<Rightarrow> nat \<Rightarrow> nat \<Rightarrow> nat \<Rightarrow> error + bool" where
  "is_prima_facie self c_and_e c_trues e_trues =
     (if c_trues = 0 then Inr False
      else bind_e (truediv c_and_e c_trues) (\<lambda>lhs.
           bind_e (truediv e_trues (traces self)) (\<lambda>rhs.
           Inr (lhs > rhs))))"

text \<open>
  The body of the loop of \<open>test_for_prima_facie\<close> for one hypothesis: an accepted cause
  is appended to the entry of its effect, which is created when absent.
\<close>

definition prima_facie_body ::
  "('c, 'o, 't::linorder) inference \<Rightarrow> 'o \<times> 'o \<Rightarrow> error + ('c, 'o, 't) inference" where
  "prima_facie_body self hypothesis =
     (let (cause, effect) = hypothesis
      in bind_e (test_cause_effect_pair self cause effect) (\<lambda>(c_and_e, c_trues, e_trues).
         bind_e (is_prima_facie self c_and_e c_trues e_trues) (\<lambda>accepted.
         if accepted then
           (case prima_facie self effect of
              None \<Rightarrow> Inr (self\<lparr>prima_facie := (prima_facie self)(effect \<mapsto> [cause])\<rparr>)
            | Some causes \<Rightarrow>
                Inr (self\<lparr>prima_facie := (prima_facie self)(effect \<mapsto> causes @ [cause])\<rparr>))
         else Inr self)))"

fun prima_facie_loop ::
  "('c, 'o, 't::linorder) inference \<Rightarrow> ('o \<times> 'o) list \<Rightarrow> error + ('c, 'o, 't) inference" where
  "prima_facie_loop self [] = Inr self"
| "prima_facie_loop self (hypothesis # rest) =
     (case prima_facie_body self hypothesis of
        Inl e \<Rightarrow> Inl e
      | Inr self' \<Rightarrow> prima_facie_loop self' rest)"

definition test_for_prima_facie ::
  "('c, 'o, 't::linorder) inference \<Rightarrow> error + ('c, 'o, 't) inference" where
  "test_for_prima_facie self = prima_facie_loop self (hypotheses self)"

subsection \<open>\<open>calculate_probability_differences\<close>\<close>

text \<open>
  The four counters are threaded through the loop over \<open>x_cases\<close> as a tuple
  \<open>(c_and_x, c_and_x_and_e, not_c_and_x, not_c_and_x_and_e)\<close>.  The body has two
  \<open>if\<close> statements in sequence; \<open>and\<close> evaluates its right operand only when the
  left one is true.
\<close>

definition prob_diff_body ::
  "('c, 'o, 't::linorder) row list \<Rightarrow> 'o \<Rightarrow> 'o \<Rightarrow> 'o \<Rightarrow> 'c \<Rightarrow> nat \<times> nat \<times> nat \<times> nat
     \<Rightarrow> error + (nat \<times> nat \<times> nat \<times> nat)" where
  "prob_diff_body subset_df effect cause x case_id counters =
     (let (c_and_x, c_and_x_and_e, not_c_and_x, not_c_and_x_and_e) = counters;
          trace = filter (\<lambda>r. row_case r = case_id) subset_df;
          obs_values = map row_obs trace;
          time_values = map row_time trace
      in bind_e
           (if np_any (np_eq obs_values cause) \<and> np_any (np_eq obs_values x) then
              (if np_any (np_eq obs_values effect) then
                 (let c_times = np_select time_values (np_eq obs_values cause);
                      x_times = np_select time_values (np_eq obs_values x);
                      e_times = np_select time_values (np_eq obs_values effect)
                  in bind_e (np_min c_times) (\<lambda>min_c.
                     bind_e (np_max e_times) (\<lambda>max_e.
                     if min_c \<le> max_e then
                       bind_e (np_min x_times) (\<lambda>min_x.
                       bind_e (np_max e_times) (\<lambda>max_e'.
                       Inr (c_and_x + 1,
                            if min_x \<le> max_e' then c_and_x_and_e + 1 else c_and_x_and_e)))
                     else Inr (c_and_x + 1, c_and_x_and_e))))
               else Inr (c_and_x + 1, c_and_x_and_e))
            else Inr (c_and_x, c_and_x_and_e))
           (\<lambda>(c_and_x, c_and_x_and_e).
            if np_all (np_ne obs_values cause) \<and> np_any (np_eq obs_values x) then
              (if np_any (np_eq obs_values effect) then
                 (let x_times = np_select time_values (np_eq obs_values x);
                      e_times = np_select time_values (np_eq obs_values effect)
                  in bind_e (np_min x_times) (\<lambda>min_x.
                     bind_e (np_max e_times) (\<lambda>max_e.
                     Inr (c_and_x, c_and_x_and_e, not_c_and_x + 1,
                          if min_x \<le> max_e then not_c_and_x_and_e + 1 else not_c_and_x_and_e))))
               else Inr (c_and_x, c_and_x_and_e, not_c_and_x + 1, not_c_and_x_and_e))
            else Inr (c_and_x, c_and_x_and_e, not_c_and_x, not_c_and_x_and_e)))"

fun prob_diff_loop ::
  "('c, 'o, 't::linorder) row list \<Rightarrow> 'o \<Rightarrow> 'o \<Rightarrow> 'o \<Rightarrow> 'c list \<Rightarrow> nat \<times> nat \<times> nat \<times> nat
     \<Rightarrow> error + (nat \<times> nat \<times> nat \<times> nat)" where
  "prob_diff_loop subset_df effect cause x [] counters = Inr counters"
| "prob_diff_loop subset_df effect cause x (case_id # cases) counters =
     (case prob_diff_body subset_df effect cause x case_id counters of
        Inl e \<Rightarrow> Inl e
      | Inr counters' \<Rightarrow> prob_diff_loop subset_df effect cause x cases counters')"

definition calculate_probability_differences ::
  "('c, 'o, 't::linorder) inference \<Rightarrow> 'o \<Rightarrow> 'o \<Rightarrow> 'o \<Rightarrow> error + rat" where
  "calculate_probability_differences self effect cause x =
     (let subset_df = filter (\<lambda>r. isin (row_obs r) [cause, effect, x]) (source self);
          x_cases = unique (map row_case (filter (\<lambda>r. row_obs r = x) subset_df))
      in bind_e (prob_diff_loop subset_df effect cause x x_cases (0, 0, 0, 0))
           (\<lambda>(c_and_x, c_and_x_and_e, not_c_and_x, not_c_and_x_and_e).
            if c_and_x = 0 \<or> not_c_and_x = 0 then Inr 0
            else bind_e (truediv c_and_x_and_e c_and_x) (\<lambda>p_c.
                 bind_e (truediv not_c_and_x_and_e not_c_and_x) (\<lambda>p_not_c.
                 Inr (float_sub p_c p_not_c)))))"

subsection \<open>\<open>get_epsilon_average\<close>\<close>

fun eps_x_loop ::
  "('c, 'o, 't::linorder) inference \<Rightarrow> 'o \<Rightarrow> 'o \<Rightarrow> 'o list \<Rightarrow> rat \<Rightarrow> error + rat" where
  "eps_x_loop self effect cause [] eps_x = Inr eps_x"
| "eps_x_loop self effect cause (x # other_causes) eps_x =
     (case calculate_probability_differences self effect cause x of
        Inl e \<Rightarrow> Inl e
      | Inr d \<Rightarrow> eps_x_loop self effect cause other_causes (float_add eps_x d))"

text \<open>
  The result is \<open>None\<close> (Python's \<open>None\<close>, the undefined score) or a number; the lookup
  \<open>self.prima_facie[effect]\<close> raises \<open>KeyError\<close> when the effect has no entry.
\<close>

definition get_epsilon_average ::
  "('c, 'o, 't::linorder) inference \<Rightarrow> 'o \<Rightarrow> 'o \<Rightarrow> error + rat option" where
  "get_epsilon_average self effect cause =
     (case prima_facie self effect of
        None \<Rightarrow> Inl KeyError
      | Some causes \<Rightarrow>
          (let other_causes = filter (\<lambda>x. x \<noteq> cause) causes
           in if length other_causes \<noteq> 0 then
                bind_e (eps_x_loop self effect cause other_causes 0) (\<lambda>eps_x.
                bind_e (float_div_int eps_x (length other_causes)) (\<lambda>avg.
                Inr (Some avg)))
              else Inr None))"

section \<open>The quantities of the specification\<close>

text \<open>
  The specification speaks of the cases in which an observation occurs and of the
  earliest and latest timestamp of an observation within a case.  These definitions
  follow its words; the theorems below compare them with what the code computes.
\<close>

definition cases_with :: "('c, 'o, 't) row list \<Rightarrow> 'o \<Rightarrow> 'c set" where
  "cases_with rows obs = set (map row_case (filter (\<lambda>r. row_obs r = obs) rows))"

definition times_in :: "('c, 'o, 't) row list \<Rightarrow> 'c \<Rightarrow> 'o \<Rightarrow> 't set" where
  "times_in rows case_id obs =
     set (map row_time (filter (\<lambda>r. row_case r = case_id \<and> row_obs r = obs) rows))"

definition occurs_by :: "('c, 'o, 't::linorder) row list \<Rightarrow> 'c \<Rightarrow> 'o \<Rightarrow> 'o \<Rightarrow> bool" where
  "occurs_by rows case_id a b \<longleftrightarrow> Min (times_in rows case_id a) \<le> Max (times_in rows case_id b)"

definition total_traces :: "('c, 'o, 't) row list \<Rightarrow> nat" where
  "total_traces rows = card (set (map row_case rows))"

definition c_and_e_spec :: "('c, 'o, 't::linorder) row list \<Rightarrow> 'o \<Rightarrow> 'o \<Rightarrow> nat" where
  "c_and_e_spec rows cause effect =
     card {k \<in> cases_with rows cause \<inter> cases_with rows effect. occurs_by rows k cause effect}"

definition c_and_x_spec :: "('c, 'o, 't) row list \<Rightarrow> 'o \<Rightarrow> 'o \<Rightarrow> nat" where
  "c_and_x_spec rows cause x = card (cases_with rows x \<inter> cases_with rows cause)"

definition c_and_x_and_e_spec :: "('c, 'o, 't::linorder) row list \<Rightarrow> 'o \<Rightarrow> 'o \<Rightarrow> 'o \<Rightarrow> nat" where
  "c_and_x_and_e_spec rows effect cause x =
     card {k \<in> cases_with rows x \<inter> cases_with rows cause \<inter> cases_with rows effect.
             occurs_by rows k cause effect \<and> occurs_by rows k x effect}"

definition not_c_and_x_spec :: "('c, 'o, 't) row list \<Rightarrow> 'o \<Rightarrow> 'o \<Rightarrow> nat" where
  "not_c_and_x_spec rows cause x = card (cases_with rows x - cases_with rows cause)"

definition not_c_and_x_and_e_spec :: "('c, 'o, 't::linorder) row list \<Rightarrow> 'o \<Rightarrow> 'o \<Rightarrow> 'o \<Rightarrow> nat" where
  "not_c_and_x_and_e_spec rows effect cause x =
     card {k \<in> (cases_with rows x - cases_with rows cause) \<inter> cases_with rows effect.
             occurs_by rows k x effect}"

text \<open>
  The probability difference of section 4.4 of the specification, in exact arithmetic,
  and the same expression as the code evaluates it: each quotient rounded to a double,
  then the difference rounded.
\<close>

definition delta_spec :: "('c, 'o, 't::linorder) row list \<Rightarrow> 'o \<Rightarrow> 'o \<Rightarrow> 'o \<Rightarrow> rat" where
  "delta_spec rows effect cause x =
     (if c_and_x_spec rows cause x = 0 \<or> not_c_and_x_spec rows cause x = 0 then 0
      else of_nat (c_and_x_and_e_spec rows effect cause x) / of_nat (c_and_x_spec rows cause x)
           - of_nat (not_c_and_x_and_e_spec rows effect cause x) / of_nat (not_c_and_x_spec rows cause x))"

definition delta_double :: "('c, 'o, 't::linorder) row list \<Rightarrow> 'o \<Rightarrow> 'o \<Rightarrow> 'o \<Rightarrow> rat" where
  "delta_double rows effect cause x =
     (if c_and_x_spec rows cause x = 0 \<or> not_c_and_x_spec rows cause x = 0 then 0
      else double
             (double (of_nat (c_and_x_and_e_spec rows effect cause x)
                      / of_nat (c_and_x_spec rows cause x))
              - double (of_nat (not_c_and_x_and_e_spec rows effect cause x)
                        / of_nat (not_c_and_x_spec rows cause x))))"

text \<open>The causes recorded for an effect, as a set.\<close>

definition causes_of :: "('o \<rightharpoonup> 'o list) \<Rightarrow> 'o \<Rightarrow> 'o set" where
  "causes_of pf effect = (case pf effect of None \<Rightarrow> {} | Some causes \<Rightarrow> set causes)"

text \<open>
  The significance test of section 4.3 of the specification, on the counts defined
  above, with \<open>total_traces\<close> the number of distinct cases of the whole log.
\<close>

definition accepted_spec :: "('c, 'o, 't::linorder) row list \<Rightarrow> 'o \<Rightarrow> 'o \<Rightarrow> bool" where
  "accepted_spec rows cause effect \<longleftrightarrow>
     0 < card (cases_with rows cause)
     \<and> (of_nat (card (cases_with rows effect)) / of_nat (total_traces rows) :: rat)
         < of_nat (c_and_e_spec rows cause effect) / of_nat (card (cases_with rows cause))"

text \<open>
  The same test as the code evaluates it: both quotients are rounded to doubles before
  they are compared.
\<close>

definition accepted_double :: "('c, 'o, 't::linorder) row list \<Rightarrow> 'o \<Rightarrow> 'o \<Rightarrow> bool" where
  "accepted_double rows cause effect \<longleftrightarrow>
     0 < card (cases_with rows cause)
     \<and> double (of_nat (card (cases_with rows effect)) / of_nat (total_traces rows))
         < double (of_nat (c_and_e_spec rows cause effect) / of_nat (card (cases_with rows cause)))"

text \<open>
  The causes that a list of hypotheses proposes for an effect and that the code accepts,
  in the order in which the hypotheses are evaluated; and the list stored for an effect,
  empty when the effect has no entry.
\<close>

definition accepted_causes ::
  "('c, 'o, 't::linorder) row list \<Rightarrow> ('o \<times> 'o) list \<Rightarrow> 'o \<Rightarrow> 'o list" where
  "accepted_causes rows hyps effect =
     map fst (filter (\<lambda>h. snd h = effect \<and> accepted_double rows (fst h) effect) hyps)"

definition entry_of :: "('o \<rightharpoonup> 'o list) \<Rightarrow> 'o \<Rightarrow> 'o list" where
  "entry_of pf effect = (case pf effect of None \<Rightarrow> [] | Some causes \<Rightarrow> causes)"

section \<open>Event logs\<close>

text \<open>
  The first log is the end-to-end scenario of the specification: four cases, \<open>A\<close> in
  cases 1, 2 and 3, each time before \<open>B\<close>, and \<open>B\<close> in cases 1 and 2 only.  In the
  second log \<open>A\<close> occurs both before and after \<open>B\<close> in case 1 and only after \<open>B\<close>
  in case 2.  In the third log \<open>B\<close> has the three prima-facie causes \<open>A\<close>, \<open>X\<close>
  and \<open>Y\<close>; \<open>duplicate_start\<close> proposes the cause \<open>X\<close> twice.  In the fourth log the
  probability difference of \<open>A\<close> against \<open>X\<close> for the effect \<open>B\<close> is one third.
\<close>

definition scenario_log :: "(string, string, int) row list" where
  "scenario_log =
     [(''1'', ''A'', 1), (''1'', ''B'', 2), (''2'', ''A'', 1), (''2'', ''B'', 3),
      (''3'', ''A'', 2), (''4'', ''C'', 1)]"

definition interleaved_log :: "(string, string, int) row list" where
  "interleaved_log =
     [(''1'', ''A'', 5), (''1'', ''B'', 3), (''1'', ''B'', 7), (''1'', ''A'', 9),
      (''2'', ''B'', 1), (''2'', ''A'', 2), (''3'', ''A'', 1)]"

definition confounder_log :: "(string, string, int) row list" where
  "confounder_log =
     [(''1'', ''A'', 1), (''1'', ''B'', 2),
      (''2'', ''A'', 1), (''2'', ''X'', 2), (''2'', ''B'', 3),
      (''3'', ''A'', 1), (''3'', ''X'', 2), (''3'', ''Y'', 2), (''3'', ''B'', 3),
      (''4'', ''X'', 1), (''5'', ''C'', 1), (''6'', ''C'', 1)]"

definition confounder_start :: "(string, string, int) inference" where
  "confounder_start =
     generate_hypotheses_for_effects (init confounder_log) [''A'', ''X'', ''Y''] [''B'']"

definition confounder_state :: "(string, string, int) inference" where
  "confounder_state =
     confounder_start\<lparr>prima_facie := Map.empty(''B'' \<mapsto> [''A'', ''X'', ''Y''])\<rparr>"

definition duplicate_start :: "(string, string, int) inference" where
  "duplicate_start =
     generate_hypotheses_for_effects (init confounder_log) [''A'', ''X'', ''X'', ''Y''] [''B'']"

definition duplicate_state :: "(string, string, int) inference" where
  "duplicate_state =
     duplicate_start\<lparr>prima_facie := Map.empty(''B'' \<mapsto> [''A'', ''X'', ''X'', ''Y''])\<rparr>"

definition thirds_log :: "(string, string, int) row list" where
  "thirds_log =
     [(''1'', ''A'', 1), (''1'', ''X'', 2), (''1'', ''B'', 3),
      (''2'', ''A'', 1), (''2'', ''X'', 2),
      (''3'', ''A'', 1), (''3'', ''X'', 2),
      (''4'', ''X'', 1), (''5'', ''C'', 1), (''6'', ''C'', 1), (''7'', ''C'', 1),
      (''8'', ''C'', 1)]"

definition thirds_start :: "(string, string, int) inference" where
  "thirds_start = generate_hypotheses_for_effects (init thirds_log) [''A'', ''X''] [''B'']"

definition thirds_state :: "(string, string, int) inference" where
  "thirds_state = thirds_start\<lparr>prima_facie := Map.empty(''B'' \<mapsto> [''A'', ''X''])\<rparr>"

text \<open>
  A log whose size makes the rounding of the two quotients of the significance test
  visible.  Case \<open>i\<close> holds \<open>A\<close> followed by \<open>B\<close> when \<open>i < both\<close>, only \<open>A\<close> when
  \<open>both \<le> i < with_a\<close>, only \<open>B\<close> when \<open>i = with_a\<close>, and only \<open>C\<close> above.
\<close>

definition skewed_rows :: "nat \<Rightarrow> nat \<Rightarrow> nat \<Rightarrow> (nat, string, int) row list" where
  "skewed_rows both with_a i =
     (if i < both then [(i, ''A'', 0), (i, ''B'', 1)]
      else if i < with_a then [(i, ''A'', 0)]
      else if i = with_a then [(i, ''B'', 0)]
      else [(i, ''C'', 0)])"

definition skewed_log :: "nat \<Rightarrow> nat \<Rightarrow> nat \<Rightarrow> (nat, string, int) row list" where
  "skewed_log both with_a n = concat (map (skewed_rows both with_a) [0..<n])"

definition large_log :: "(nat, string, int) row list" where
  "large_log = skewed_log 134217728 268435454 268435456"

section \<open>Lemmas on the window primitives\<close>

lemma count_effect_scan_eq:
  "count_effect_scan e_trues ws we shared res =
     res + (if effect_in_window e_trues ((ws, we), shared) then 1 else 0)"
proof (induction e_trues)
  case Nil
  show ?case by (simp add: effect_in_window_def)
next
  case (Cons a e_trues)
  obtain e e_cases where a: "a = (e, e_cases)" by (cases a)
  have ne: "filter (\<lambda>k. k \<in> set shared) e_cases \<noteq> [] \<longleftrightarrow> list_ex (\<lambda>k. k \<in> set shared) e_cases"
    by (auto simp: filter_empty_conv list_ex_iff)
  show ?case using Cons.IH ne
    by (auto simp: a effect_in_window_def Let_def)
qed

lemma count_effect_loop_eq:
  "count_effect_loop e_trues windows res =
     res + length (filter (effect_in_window e_trues) windows)"
proof (induction windows arbitrary: res)
  case Nil
  show ?case by simp
next
  case (Cons w windows)
  obtain ws we shared where w: "w = ((ws, we), shared)" by (cases w) auto
  show ?case by (simp add: w Cons.IH count_effect_scan_eq)
qed

text \<open>
  Claim C9.  \<open>count_effect\<close> returns the number of entries of \<open>windows\<close> for which some
  effect timepoint lies inside the entry's closed interval and shares a case with the
  entry's case list; an entry is counted once however many timepoints qualify, so the
  result is at most the number of entries.
\<close>

theorem count_effect_counts_entries:
  "count_effect e_trues windows =
     length (filter (\<lambda>((ws, we), cases).
                \<exists>(e, e_cases) \<in> set e_trues. ws \<le> e \<and> e \<le> we \<and> set e_cases \<inter> set cases \<noteq> {})
             windows)
   \<and> count_effect e_trues windows \<le> length windows"
proof -
  have eq: "effect_in_window e_trues =
      (\<lambda>((ws, we), cases). \<exists>(e, e_cases) \<in> set e_trues. ws \<le> e \<and> e \<le> we \<and> set e_cases \<inter> set cases \<noteq> {})"
    by (auto simp: effect_in_window_def list_ex_iff fun_eq_iff)
  have "count_effect e_trues windows = length (filter (effect_in_window e_trues) windows)"
    by (simp add: count_effect_def count_effect_loop_eq)
  then show ?thesis unfolding eq by simp
qed

theorem count_effect_counts_entries_witness:
  "count_effect [(3::int, [''k1'']), (4, [''k1'', ''k2'']), (8, [''k3''])]
                [((0, 5), [''k1'']), ((6, 9), [''k1'']), ((6, 9), [''k3''])] = 2"
  using count_effect_counts_entries
    [of "[(3::int, [''k1'']), (4, [''k1'', ''k2'']), (8, [''k3''])]"
        "[((0, 5), [''k1'']), ((6, 9), [''k1'']), ((6, 9), [''k3''])]"]
  by simp

lemma get_overlap_lt: "p < r \<Longrightarrow> get_overlap (r, s) (p, q) = (if q < r then None else Some (r, q))"
  by (simp add: get_overlap_def)

lemma get_overlap_ge: "\<not> p < r \<Longrightarrow> get_overlap (r, s) (p, q) = (if s < p then None else Some (p, s))"
  by (simp add: get_overlap_def)

text \<open>
  Claim C5, as the code has it.  For closed intervals \<open>[r, s]\<close> and \<open>[p, q]\<close>,
  \<open>get_overlap\<close> answers \<open>None\<close> exactly when the two are disjoint.  When the interval
  that starts first also ends first (equal starts having equal ends), which is the case
  for the equal-width windows \<open>(t + r, t + s)\<close> that \<open>get_ands\<close> builds, the answer is the
  intersection \<open>[max r p, min s q]\<close> and does not depend on the order of the arguments.
  The two examples of the specification are instances.
\<close>

theorem get_overlap_same_order:
  fixes r s p q :: "'t::linorder"
  assumes "r \<le> s" and "p \<le> q"
  shows "(get_overlap (r, s) (p, q) = None \<longleftrightarrow> s < p \<or> q < r)
       \<and> ((r \<le> p \<longrightarrow> s \<le> q) \<and> (p \<le> r \<longrightarrow> q \<le> s) \<longrightarrow>
            get_overlap (r, s) (p, q) = (if s < p \<or> q < r then None else Some (max r p, min s q))
          \<and> get_overlap (r, s) (p, q) = get_overlap (p, q) (r, s))"
proof -
  consider (lt) "p < r" | (gt) "r < p" | (eq) "r = p" by (rule linorder_cases [of p r]) auto
  then show ?thesis
  proof cases
    case lt
    then have a: "get_overlap (r, s) (p, q) = (if q < r then None else Some (r, q))"
      and b: "get_overlap (p, q) (r, s) = (if q < r then None else Some (r, q))"
      by (simp_all add: get_overlap_lt get_overlap_ge)
    have c: "\<not> s < p" using lt assms by simp
    show ?thesis unfolding a b using lt assms c by (auto simp: max_def min_def)
  next
    case gt
    then have a: "get_overlap (r, s) (p, q) = (if s < p then None else Some (p, s))"
      and b: "get_overlap (p, q) (r, s) = (if s < p then None else Some (p, s))"
      by (simp_all add: get_overlap_lt get_overlap_ge)
    have c: "\<not> q < r" using gt assms by simp
    show ?thesis unfolding a b using gt assms c by (auto simp: max_def min_def)
  next
    case eq
    then have a: "get_overlap (r, s) (p, q) = (if s < p then None else Some (p, s))"
      and b: "get_overlap (p, q) (r, s) = (if q < r then None else Some (r, q))"
      by (simp_all add: get_overlap_ge)
    show ?thesis unfolding a b using eq assms by (auto simp: max_def min_def)
  qed
qed

theorem get_overlap_same_order_witness:
  "get_overlap (0::int, 5) (3, 8) = Some (3, 5)
   \<and> get_overlap (3::int, 8) (0, 5) = Some (3, 5)
   \<and> get_overlap (0::int, 5) (6, 9) = None
   \<and> get_overlap (6::int, 9) (0, 5) = None"
proof -
  have a: "get_overlap (0::int, 5) (3, 8) = Some (3, 5)
      \<and> get_overlap (0::int, 5) (3, 8) = get_overlap (3, 8) (0, 5)"
    using get_overlap_same_order [of "0::int" 5 3 8] by auto
  have b: "get_overlap (0::int, 5) (6, 9) = None
      \<and> get_overlap (0::int, 5) (6, 9) = get_overlap (6, 9) (0, 5)"
    using get_overlap_same_order [of "0::int" 5 6 9] by auto
  show ?thesis using a b by metis
qed

text \<open>
  The claim as the specification states it fails on nested windows and on windows with
  a common start: \<open>get_overlap\<close> answers with the end of the window that starts first,
  which is not the end of the intersection when the other window ends earlier, and on
  equal starts it keeps the first argument's end.
\<close>

theorem get_overlap_counterexample:
  "get_overlap (0::int, 10) (3, 5) = Some (3, 10)
   \<and> get_overlap (0::int, 5) (0, 8) = Some (0, 5)
   \<and> get_overlap (0::int, 8) (0, 5) = Some (0, 8)"
  by (simp add: get_overlap_def)

text \<open>
  Claim C8, as the code has it.  \<open>get_only_x\<close> answers \<open>None\<close> exactly when the two
  windows start at the same point.  When \<open>window_c\<close> starts first the answer runs from
  the end of \<open>window_c\<close> to the end of \<open>window_x\<close>; when \<open>window_x\<close> starts first it runs
  from the start of \<open>window_x\<close> to the start of \<open>window_c\<close>.  For windows that overlap
  or touch and of which the one that starts first also ends first, as the windows of
  one width that \<open>get_nots\<close> pairs, the answer is the part of \<open>window_x\<close> that extends
  beyond \<open>window_c\<close>: the points of \<open>[p, q]\<close> not before the end of \<open>window_c\<close>,
  respectively not after its start.  The three examples of the specification are
  instances.
\<close>

theorem get_only_x_cases:
  fixes r s p q :: "'t::linorder"
  shows "(get_only_x (r, s) (p, q) = None \<longleftrightarrow> r = p)
       \<and> (r < p \<longrightarrow> get_only_x (r, s) (p, q) = Some (s, q))
       \<and> (p < r \<longrightarrow> get_only_x (r, s) (p, q) = Some (p, r))
       \<and> (r < p \<and> p \<le> s \<and> s \<le> q \<longrightarrow>
            (\<exists>a b. get_only_x (r, s) (p, q) = Some (a, b) \<and> {a..b} = {p..q} - {r..<s}))
       \<and> (p < r \<and> r \<le> q \<and> q \<le> s \<longrightarrow>
            (\<exists>a b. get_only_x (r, s) (p, q) = Some (a, b) \<and> {a..b} = {p..q} - {r<..s}))"
proof -
  have 1: "get_only_x (r, s) (p, q) = None \<longleftrightarrow> r = p"
    by (auto simp: get_only_x_def)
  have 2: "r < p \<longrightarrow> get_only_x (r, s) (p, q) = Some (s, q)"
    by (simp add: get_only_x_def)
  have 3: "p < r \<longrightarrow> get_only_x (r, s) (p, q) = Some (p, r)"
    by (auto simp: get_only_x_def)
  have 4: "r < p \<and> p \<le> s \<and> s \<le> q \<longrightarrow> {s..q} = {p..q} - {r..<s}"
    by auto
  have 5: "p < r \<and> r \<le> q \<and> q \<le> s \<longrightarrow> {p..r} = {p..q} - {r<..s}"
    by auto
  show ?thesis using 1 2 3 4 5 by blast
qed

theorem get_only_x_cases_witness:
  "get_only_x (0::int, 5) (0, 5) = None
   \<and> get_only_x (0::int, 5) (5, 9) = Some (5, 9)
   \<and> get_only_x (5::int, 9) (0, 5) = Some (0, 5)"
proof -
  have a: "get_only_x (0::int, 5) (0, 5) = None"
    using get_only_x_cases [of "0::int" 5 0 5] by simp
  have b: "get_only_x (0::int, 5) (5, 9) = Some (5, 9)"
    using get_only_x_cases [of "0::int" 5 5 9] by simp
  have c: "get_only_x (5::int, 9) (0, 5) = Some (0, 5)"
    using get_only_x_cases [of "5::int" 9 0 5] by simp
  show ?thesis using a b c by simp
qed

text \<open>
  The claim as the specification states it, for every pair of windows with distinct
  start points, fails on disjoint and on nested windows.  For \<open>(0, 2)\<close> and \<open>(5, 9)\<close>
  the answer \<open>(2, 9)\<close> contains the gap between the windows and is a part of neither;
  for \<open>(0, 10)\<close> and \<open>(3, 5)\<close> the answer \<open>(10, 5)\<close> ends before it starts, although
  \<open>window_c\<close> extends beyond \<open>window_x\<close> on both sides.
\<close>

theorem get_only_x_counterexample:
  "get_only_x (0::int, 2) (5, 9) = Some (2, 9)
   \<and> \<not> {2..9::int} \<subseteq> {5..9} \<and> \<not> {2..9::int} \<subseteq> {0..2}
   \<and> get_only_x (0::int, 10) (3, 5) = Some (10, 5)
   \<and> {10..5::int} = {}"
  by (simp add: get_only_x_def)

section \<open>The windows that \<open>get_ands\<close> records\<close>

text \<open>
  Every window that \<open>get_ands\<close> hands to \<open>get_overlap\<close> is a timepoint shifted by the
  same pair \<open>(r, s)\<close>, so the window that starts first also ends first, and each
  recorded overlap is the intersection of the two windows.
\<close>

lemma get_overlap_Some:
  "get_overlap (r, s) (p, q) = Some ov \<longleftrightarrow>
     (if p < r then \<not> q < r \<and> ov = (r, q) else \<not> s < p \<and> ov = (p, s))"
  by (auto simp: get_overlap_def)

lemma shifted_overlap:
  fixes t :: "'t::linordered_ab_group_add"
  assumes "get_overlap (t + r, t + s) (cand + r, cand + s) = Some ov"
  shows "ov = (max (t + r) (cand + r), min (t + s) (cand + s))"
  using assms by (auto simp: get_overlap_Some max_def min_def split: if_splits)

lemma get_ands_candidates_set:
  "set (get_ands_candidates (r, s) window1 c_cases x_candidates and_list) =
     set and_list \<union>
     {(ov, shared). \<exists>(cand, x_cases) \<in> set x_candidates.
         get_overlap window1 (cand + r, cand + s) = Some ov
         \<and> shared = filter (\<lambda>c. c \<in> set x_cases) c_cases \<and> shared \<noteq> []}"
proof (induction x_candidates arbitrary: and_list)
  case Nil
  show ?case by simp
next
  case (Cons a x_candidates)
  obtain cand x_cases where a: "a = (cand, x_cases)" by (cases a)
  show ?case
    unfolding a by (auto simp: Cons.IH Let_def split: option.splits)
qed

lemma get_ands_loop_set:
  "set (get_ands_loop (r, s) c_trues x_trues and_list) =
     set and_list \<union>
     {(ov, shared). \<exists>(t, c_cases) \<in> set c_trues. \<exists>(cand, x_cases) \<in> set x_trues.
         t - (s - r) \<le> cand \<and> cand \<le> t + (s - r)
         \<and> get_overlap (t + r, t + s) (cand + r, cand + s) = Some ov
         \<and> shared = filter (\<lambda>c. c \<in> set x_cases) c_cases \<and> shared \<noteq> []}"
proof (induction c_trues arbitrary: and_list)
  case Nil
  show ?case by simp
next
  case (Cons a c_trues)
  obtain t c_cases where a: "a = (t, c_cases)" by (cases a)
  show ?case
    unfolding a by (auto simp: Cons.IH Let_def get_ands_candidates_set)
qed

lemma get_ands_entries:
  fixes r s :: "'t::linordered_ab_group_add"
  assumes "(ov, shared) \<in> set (get_ands c_trues x_trues (r, s))"
  shows "\<exists>(t, c_cases) \<in> set c_trues. \<exists>(cand, x_cases) \<in> set x_trues.
           ov = (max (t + r) (cand + r), min (t + s) (cand + s))
         \<and> shared = filter (\<lambda>c. c \<in> set x_cases) c_cases \<and> shared \<noteq> []"
  using assms unfolding get_ands_def get_ands_loop_set
  by (fastforce dest: shifted_overlap)

section \<open>The windows that \<open>get_nots\<close> records\<close>

text \<open>
  Every pair of windows that \<open>get_nots\<close> hands to \<open>get_only_x\<close> has one width and
  overlaps or touches, because a candidate lies within \<open>s - r\<close> of the timepoint of
  \<open>c\<close>.  An interval that \<open>get_only_x\<close> contributes is then the part of the window of
  \<open>x\<close> outside the window of \<open>c\<close>.
\<close>

lemma only_x_part:
  fixes r s p q :: "'t::linorder"
  shows "r < p \<Longrightarrow> p \<le> s \<Longrightarrow> s \<le> q \<Longrightarrow> {s..q} = {p..q} - {r..<s}"
    and "p < r \<Longrightarrow> r \<le> q \<Longrightarrow> q \<le> s \<Longrightarrow> {p..r} = {p..q} - {r<..s}"
  by auto

lemma get_nots_candidates_set:
  "set (get_nots_candidates (r, s) window1 c_cases x_candidates not_list) =
     set not_list \<union>
     {(w, shared). \<exists>(cand, x_cases) \<in> set x_candidates.
         shared = filter (\<lambda>c. c \<in> set x_cases) c_cases
         \<and> (shared = [] \<and> w = (cand + r, cand + s)
            \<or> get_only_x window1 (cand + r, cand + s) = Some w)}"
proof (induction x_candidates arbitrary: not_list)
  case Nil
  show ?case by simp
next
  case (Cons a x_candidates)
  obtain cand x_cases where a: "a = (cand, x_cases)" by (cases a)
  show ?case
    unfolding a by (auto simp: Cons.IH Let_def split: option.splits)
qed

lemma get_nots_loop_set:
  "set (get_nots_loop (r, s) c_trues x_trues not_list) =
     set not_list \<union>
     {(w, shared). \<exists>(t, c_cases) \<in> set c_trues. \<exists>(cand, x_cases) \<in> set x_trues.
         t - (s - r) \<le> cand \<and> cand \<le> t + (s - r)
         \<and> shared = filter (\<lambda>c. c \<in> set x_cases) c_cases
         \<and> (shared = [] \<and> w = (cand + r, cand + s)
            \<or> get_only_x (t + r, t + s) (cand + r, cand + s) = Some w)}"
proof (induction c_trues arbitrary: not_list)
  case Nil
  show ?case by simp
next
  case (Cons a c_trues)
  obtain t c_cases where a: "a = (t, c_cases)" by (cases a)
  show ?case
    unfolding a by (auto simp: Cons.IH Let_def get_nots_candidates_set)
qed

lemma shifted_only_x:
  fixes t :: "'t::linordered_ab_group_add"
  assumes "get_only_x (t + r, t + s) (cand + r, cand + s) = Some w"
    and "t - (s - r) \<le> cand" and "cand \<le> t + (s - r)"
  shows "t < cand \<and> w = (t + s, cand + s)
           \<and> {t + s..cand + s} = {cand + r..cand + s} - {t + r..<t + s}
         \<or> cand < t \<and> w = (cand + r, t + r)
           \<and> {cand + r..t + r} = {cand + r..cand + s} - {t + r<..t + s}"
proof -
  have up: "cand + r \<le> t + s"
  proof -
    have "cand + r \<le> t + (s - r) + r" using assms(3) by (rule add_right_mono)
    then show ?thesis by (simp add: algebra_simps)
  qed
  have down: "t + r \<le> cand + s"
  proof -
    have "t - (s - r) + s \<le> cand + s" using assms(2) by (rule add_right_mono)
    then show ?thesis by (simp add: algebra_simps)
  qed
  consider (lt) "t < cand" | (gt) "cand < t" | (eq) "t = cand" by (rule linorder_cases)
  then show ?thesis
  proof cases
    case lt
    then have w: "w = (t + s, cand + s)" using assms(1) by (simp add: get_only_x_def)
    have "t + r < cand + r" "t + s \<le> cand + s" using lt by simp_all
    from only_x_part(1) [OF this(1) up this(2)] lt w show ?thesis by simp
  next
    case gt
    have n: "\<not> t < cand" using gt by simp
    have c: "cand + r < t + r" "cand + s \<le> t + s" using gt by simp_all
    have "get_only_x (t + r, t + s) (cand + r, cand + s) = Some (cand + r, t + r)"
      unfolding get_only_x_def Let_def prod.case using n c(1) by (simp only: if_True if_False add_less_cancel_right)
    then have w: "w = (cand + r, t + r)" using assms(1) by simp
    from only_x_part(2) [OF c(1) down c(2)] gt w show ?thesis by simp
  next
    case eq
    then show ?thesis using assms(1) by (simp add: get_only_x_def)
  qed
qed

lemma get_nots_entries:
  fixes r s :: "'t::linordered_ab_group_add"
  assumes "(w, shared) \<in> set (get_nots c_trues x_trues (r, s))"
  shows "\<exists>(t, c_cases) \<in> set c_trues. \<exists>(cand, x_cases) \<in> set x_trues.
           shared = filter (\<lambda>c. c \<in> set x_cases) c_cases
         \<and> (shared = [] \<and> w = (cand + r, cand + s)
            \<or> t < cand \<and> w = (t + s, cand + s)
               \<and> {t + s..cand + s} = {cand + r..cand + s} - {t + r..<t + s}
            \<or> cand < t \<and> w = (cand + r, t + r)
               \<and> {cand + r..t + r} = {cand + r..cand + s} - {t + r<..t + s})"
proof -
  from assms obtain t c_cases cand x_cases where
    m: "(t, c_cases) \<in> set c_trues" "(cand, x_cases) \<in> set x_trues"
    and rng: "t - (s - r) \<le> cand" "cand \<le> t + (s - r)"
    and sh: "shared = filter (\<lambda>c. c \<in> set x_cases) c_cases"
    and alt: "shared = [] \<and> w = (cand + r, cand + s)
              \<or> get_only_x (t + r, t + s) (cand + r, cand + s) = Some w"
    unfolding get_nots_def get_nots_loop_set by auto
  from alt show ?thesis
  proof
    assume "shared = [] \<and> w = (cand + r, cand + s)"
    then show ?thesis using m sh by blast
  next
    assume "get_only_x (t + r, t + s) (cand + r, cand + s) = Some w"
    from shifted_only_x [OF this rng] show ?thesis using m sh by blast
  qed
qed

section \<open>Lemmas on double-precision rounding\<close>

lemma round_half_even_error: "\<bar>of_int (round_half_even z) - z\<bar> \<le> 1 / 2"
proof -
  have "of_int \<lfloor>z\<rfloor> \<le> z" "z < of_int \<lfloor>z\<rfloor> + 1" by linarith+
  then show ?thesis by (auto simp: round_half_even_def Let_def)
qed

lemma round_half_even_le:
  assumes "z \<le> of_int m"
  shows "round_half_even z \<le> m"
proof -
  have f: "\<lfloor>z\<rfloor> \<le> m" using assms by (simp add: floor_le_iff)
  show ?thesis
  proof (cases "\<lfloor>z\<rfloor> = m")
    case True
    then have "z - of_int \<lfloor>z\<rfloor> \<le> 0" using assms by simp
    then show ?thesis using True by (simp add: round_half_even_def Let_def)
  next
    case False
    then have "\<lfloor>z\<rfloor> + 1 \<le> m" using f by simp
    then show ?thesis by (auto simp: round_half_even_def Let_def)
  qed
qed

lemma round_half_even_ge:
  assumes "of_int m \<le> z"
  shows "m \<le> round_half_even z"
proof -
  have "m \<le> \<lfloor>z\<rfloor>" using assms by (simp add: le_floor_iff)
  then show ?thesis by (auto simp: round_half_even_def Let_def)
qed

lemma bitlen_mono: "x \<le> y \<Longrightarrow> bitlen x \<le> bitlen y"
  by (simp add: bitlen_def floorlog_mono nat_mono)

lemma binade_le_0:
  assumes "q \<noteq> 0" and "\<bar>q\<bar> \<le> 1"
  shows "binade q \<le> 0"
proof -
  obtain n d where nd: "quotient_of \<bar>q\<bar> = (n, d)" by (cases "quotient_of \<bar>q\<bar>")
  have d: "0 < d" by (rule quotient_of_denom_pos [OF nd])
  have q: "\<bar>q\<bar> = of_int n / of_int d" by (rule quotient_of_div [OF nd])
  have "of_int n / of_int d \<le> (1::rat)" using assms(2) q by simp
  then have "n \<le> d" using d by (simp add: divide_le_eq)
  then have "bitlen n - bitlen d \<le> 0" using bitlen_mono [of n d] by simp
  then show ?thesis by (simp add: binade_def nd Let_def)
qed

lemma ulp_small:
  assumes "q \<noteq> 0" and "\<bar>q\<bar> \<le> 1"
  shows "\<exists>k::nat. 52 \<le> k \<and> ulp q = 1 / 2 ^ k"
proof -
  let ?e = "max (binade q - 52) (- 1074)"
  have e: "?e \<le> - 52" using binade_le_0 [OF assms] by simp
  have "ulp q = 2 powi ?e" by (simp add: ulp_def)
  also have "\<dots> = 1 / 2 ^ nat (- ?e)"
    using e by (simp add: power_int_def inverse_eq_divide power_one_over [symmetric] del: max_less_iff_conj)
  finally have "ulp q = 1 / 2 ^ nat (- ?e)" .
  moreover have "52 \<le> nat (- ?e)" using e by linarith
  ultimately show ?thesis by blast
qed

lemma double_error:
  assumes "\<bar>q\<bar> \<le> 1"
  shows "\<bar>double q - q\<bar> \<le> 1 / 2 ^ 53"
proof (cases "q = 0")
  case True
  then show ?thesis by (simp add: double_def)
next
  case False
  from ulp_small [OF False assms] obtain k :: nat where k: "52 \<le> k" and u: "ulp q = 1 / 2 ^ k"
    by blast
  have upos: "0 < ulp q" by (simp add: u)
  have "double q - q = (of_int (round_half_even (q / ulp q)) - q / ulp q) * ulp q"
    using False upos by (simp add: double_def algebra_simps)
  then have "\<bar>double q - q\<bar> = \<bar>of_int (round_half_even (q / ulp q)) - q / ulp q\<bar> * ulp q"
    using upos by (simp add: abs_mult)
  also have "\<dots> \<le> (1 / 2) * ulp q"
    using round_half_even_error [of "q / ulp q"] upos by (intro mult_right_mono) simp_all
  also have "\<dots> = 1 / 2 ^ Suc k" by (simp add: u)
  also have "\<dots> \<le> 1 / 2 ^ 53"
  proof -
    have "(2::rat) ^ 53 \<le> 2 ^ Suc k" using k by (intro power_increasing) simp_all
    then show ?thesis by (intro divide_left_mono) simp_all
  qed
  finally show ?thesis .
qed

lemma double_bounds:
  assumes "\<bar>q\<bar> \<le> 1"
  shows "\<bar>double q\<bar> \<le> 1" and "0 \<le> q \<Longrightarrow> 0 \<le> double q"
proof -
  show "\<bar>double q\<bar> \<le> 1"
  proof (cases "q = 0")
    case True
    then show ?thesis by (simp add: double_def)
  next
    case False
    from ulp_small [OF False assms] obtain k :: nat where u: "ulp q = 1 / 2 ^ k" by blast
    have upos: "0 < ulp q" by (simp add: u)
    have inv: "1 / ulp q = of_int (2 ^ k)" by (simp add: u)
    have "q / ulp q \<le> of_int (2 ^ k)"
      using assms upos by (simp add: u divide_simps)
    then have hi: "round_half_even (q / ulp q) \<le> 2 ^ k" by (rule round_half_even_le)
    have "- 1 \<le> q" using assms by linarith
    then have "(- 1) * 2 ^ k \<le> q * (2 ^ k :: rat)" by (intro mult_right_mono) simp_all
    then have "of_int (- (2 ^ k)) \<le> q / ulp q"
      by (simp add: u)
    then have lo: "- (2 ^ k) \<le> round_half_even (q / ulp q)" by (rule round_half_even_ge)
    have "\<bar>round_half_even (q / ulp q)\<bar> \<le> 2 ^ k" using hi lo by simp
    then have "\<bar>(of_int (round_half_even (q / ulp q)) :: rat)\<bar> \<le> 2 ^ k"
      by (metis of_int_abs of_int_le_iff of_int_numeral of_int_power)
    then have "\<bar>of_int (round_half_even (q / ulp q)) * ulp q\<bar> \<le> 2 ^ k * (1 / 2 ^ k :: rat)"
      unfolding abs_mult u by (intro mult_mono) simp_all
    then show ?thesis using False by (simp add: double_def)
  qed
  show "0 \<le> double q" if "0 \<le> q"
  proof (cases "q = 0")
    case True
    then show ?thesis by (simp add: double_def)
  next
    case False
    from ulp_small [OF False assms] obtain k :: nat where u: "ulp q = 1 / 2 ^ k" by blast
    have "of_int 0 \<le> q / ulp q" using that by (simp add: u)
    then have "0 \<le> round_half_even (q / ulp q)" by (rule round_half_even_ge)
    then show ?thesis using False by (simp add: double_def u)
  qed
qed

section \<open>Lemmas on the pandas and numpy operations\<close>

lemma bind_e_Inr [simp]: "bind_e (Inr v) f = f v"
  by (simp add: bind_e_def)

lemma bind_e_Inl [simp]: "bind_e (Inl e) f = Inl e"
  by (simp add: bind_e_def)

lemma set_unique [simp]: "set (unique xs) = set xs"
  by (simp add: unique_def)

lemma distinct_unique [simp]: "distinct (unique xs)"
  by (simp add: unique_def)

lemma length_unique: "length (unique xs) = card (set xs)"
  using distinct_card [of "unique xs"] by simp

lemma np_select_eq:
  "np_select (map f xs) (np_eq (map g xs) v) = map f (filter (\<lambda>r. g r = v) xs)"
  by (induction xs) (simp_all add: np_select_def np_eq_def)

lemma np_any_eq: "np_any (np_eq (map g xs) v) \<longleftrightarrow> (\<exists>r \<in> set xs. g r = v)"
  by (auto simp: np_any_def np_eq_def list_ex_iff)

lemma np_all_ne: "np_all (np_ne (map g xs) v) \<longleftrightarrow> (\<forall>r \<in> set xs. g r \<noteq> v)"
  by (auto simp: np_all_def np_ne_def list_all_iff)

lemma np_min_eq: "xs \<noteq> [] \<Longrightarrow> np_min xs = Inr (Min (set xs))"
proof (cases xs)
  case (Cons a list)
  show ?thesis using Min.set_eq_fold [of a list] by (simp add: Cons)
qed simp

lemma np_max_eq: "xs \<noteq> [] \<Longrightarrow> np_max xs = Inr (Max (set xs))"
proof (cases xs)
  case (Cons a list)
  show ?thesis using Max.set_eq_fold [of a list] by (simp add: Cons)
qed simp

lemma length_filter_card:
  "distinct ks \<Longrightarrow> length (filter P ks) = card {k \<in> set ks. P k}"
proof -
  assume "distinct ks"
  then have "distinct (filter P ks)" by simp
  then have "length (filter P ks) = card (set (filter P ks))" by (simp only: distinct_card)
  then show ?thesis by simp
qed

section \<open>The rows of one case within a filtered table\<close>

lemma filter_trace:
  "obs \<in> set labels \<Longrightarrow>
   filter (\<lambda>r. row_obs r = obs)
     (filter (\<lambda>r. row_case r = k) (filter (\<lambda>r. isin (row_obs r) labels) rows))
   = filter (\<lambda>r. row_case r = k \<and> row_obs r = obs) rows"
  by (induction rows) (auto simp: isin_def)

lemma filter_label:
  "obs \<in> set labels \<Longrightarrow>
   filter (\<lambda>r. row_obs r = obs) (filter (\<lambda>r. isin (row_obs r) labels) rows)
   = filter (\<lambda>r. row_obs r = obs) rows"
  by (induction rows) (auto simp: isin_def)

lemma trace_times:
  assumes "obs \<in> set labels"
  shows "np_select (map row_time (filter (\<lambda>r. row_case r = k) (filter (\<lambda>r. isin (row_obs r) labels) rows)))
           (np_eq (map row_obs (filter (\<lambda>r. row_case r = k) (filter (\<lambda>r. isin (row_obs r) labels) rows))) obs)
         = map row_time (filter (\<lambda>r. row_case r = k \<and> row_obs r = obs) rows)"
  by (simp only: np_select_eq filter_trace [OF assms])

lemma mem_cases_with:
  "k \<in> cases_with rows obs \<longleftrightarrow> (\<exists>r \<in> set rows. row_case r = k \<and> row_obs r = obs)"
  by (auto simp: cases_with_def)

lemma trace_any:
  assumes "obs \<in> set labels"
  shows "np_any (np_eq (map row_obs (filter (\<lambda>r. row_case r = k) (filter (\<lambda>r. isin (row_obs r) labels) rows))) obs)
         \<longleftrightarrow> k \<in> cases_with rows obs"
  using assms by (auto simp: np_any_eq mem_cases_with isin_def)

lemma trace_mem:
  assumes "obs \<in> set labels"
  shows "obs \<in> set (map row_obs (filter (\<lambda>r. row_case r = k) (filter (\<lambda>r. isin (row_obs r) labels) rows)))
         \<longleftrightarrow> k \<in> cases_with rows obs"
  using assms by (auto simp: mem_cases_with isin_def)

lemma trace_all:
  assumes "obs \<in> set labels"
  shows "np_all (np_ne (map row_obs (filter (\<lambda>r. row_case r = k) (filter (\<lambda>r. isin (row_obs r) labels) rows))) obs)
         \<longleftrightarrow> k \<notin> cases_with rows obs"
  using assms by (auto simp: np_all_ne mem_cases_with isin_def)

lemma times_nonempty:
  "k \<in> cases_with rows obs \<Longrightarrow>
   map row_time (filter (\<lambda>r. row_case r = k \<and> row_obs r = obs) rows) \<noteq> []"
  by (auto simp: mem_cases_with filter_empty_conv)

lemma np_min_times:
  "k \<in> cases_with rows obs \<Longrightarrow>
   np_min (map row_time (filter (\<lambda>r. row_case r = k \<and> row_obs r = obs) rows))
   = Inr (Min (times_in rows k obs))"
  using np_min_eq [OF times_nonempty] by (simp add: times_in_def)

lemma np_max_times:
  "k \<in> cases_with rows obs \<Longrightarrow>
   np_max (map row_time (filter (\<lambda>r. row_case r = k \<and> row_obs r = obs) rows))
   = Inr (Max (times_in rows k obs))"
  using np_max_eq [OF times_nonempty] by (simp add: times_in_def)

section \<open>The cause-before-effect count\<close>

lemma c_before_e_body_eq:
  assumes "k \<in> cases_with rows cause" and "k \<in> cases_with rows effect"
  shows "c_before_e_body (filter (\<lambda>r. isin (row_obs r) [cause, effect]) rows) cause effect k n
         = Inr (if occurs_by rows k cause effect then n + 1 else n)"
proof -
  have c: "cause \<in> set [cause, effect]" and e: "effect \<in> set [cause, effect]" by simp_all
  show ?thesis
    unfolding c_before_e_body_def Let_def
    by (simp only: trace_mem [OF e] trace_times [OF c] trace_times [OF e] assms if_True
          np_min_times [OF assms(1)] np_max_times [OF assms(2)] bind_e_Inr occurs_by_def)
qed

lemma c_before_e_loop_eq:
  assumes "set ks \<subseteq> cases_with rows cause \<inter> cases_with rows effect"
  shows "c_before_e_loop (filter (\<lambda>r. isin (row_obs r) [cause, effect]) rows) cause effect ks n
         = Inr (n + length (filter (\<lambda>k. occurs_by rows k cause effect) ks))"
  using assms
proof (induction ks arbitrary: n)
  case Nil
  show ?case by simp
next
  case (Cons k ks)
  then have k: "k \<in> cases_with rows cause" "k \<in> cases_with rows effect"
    and ks: "set ks \<subseteq> cases_with rows cause \<inter> cases_with rows effect"
    by auto
  show ?case
    by (simp add: c_before_e_body_eq [OF k] Cons.IH [OF ks])
qed

lemma test_cause_effect_pair_eq:
  "test_cause_effect_pair self cause effect =
     Inr (c_and_e_spec (source self) cause effect,
          card (cases_with (source self) cause),
          card (cases_with (source self) effect))"
proof -
  let ?rows = "source self"
  let ?sub = "filter (\<lambda>r. isin (row_obs r) [cause, effect]) ?rows"
  let ?c_traces = "unique (map row_case (filter (\<lambda>r. row_obs r = cause) ?sub))"
  let ?e_traces = "unique (map row_case (filter (\<lambda>r. row_obs r = effect) ?sub))"
  let ?ks = "filter (\<lambda>k. k \<in> set ?e_traces) ?c_traces"
  have c: "cause \<in> set [cause, effect]" and e: "effect \<in> set [cause, effect]" by simp_all
  have sc: "set ?c_traces = cases_with ?rows cause"
    by (simp only: set_unique filter_label [OF c] cases_with_def)
  have se: "set ?e_traces = cases_with ?rows effect"
    by (simp only: set_unique filter_label [OF e] cases_with_def)
  have lc: "length ?c_traces = card (cases_with ?rows cause)"
    using sc by (simp add: length_unique)
  have le: "length ?e_traces = card (cases_with ?rows effect)"
    using se by (simp add: length_unique)
  have sk: "set ?ks = cases_with ?rows cause \<inter> cases_with ?rows effect"
    using sc se by auto
  have dk: "distinct ?ks" by simp
  have cnt: "length (filter (\<lambda>k. occurs_by ?rows k cause effect) ?ks)
        = c_and_e_spec ?rows cause effect"
    unfolding c_and_e_spec_def sk [symmetric] by (rule length_filter_card [OF dk])
  have loop: "c_before_e_loop ?sub cause effect ?ks 0 = Inr (c_and_e_spec ?rows cause effect)"
    using c_before_e_loop_eq [of ?ks ?rows cause effect 0] sk cnt by simp
  show ?thesis
    unfolding test_cause_effect_pair_def Let_def
    by (simp only: loop bind_e_Inr lc le)
qed

section \<open>The probability difference and the epsilon average\<close>

lemma prob_diff_body_eq:
  assumes kx: "k \<in> cases_with rows x"
  shows "prob_diff_body (filter (\<lambda>r. isin (row_obs r) [cause, effect, x]) rows) effect cause x k (a, b, c, d)
         = Inr (a + (if k \<in> cases_with rows cause then 1 else 0),
                b + (if k \<in> cases_with rows cause \<and> k \<in> cases_with rows effect
                        \<and> occurs_by rows k cause effect \<and> occurs_by rows k x effect then 1 else 0),
                c + (if k \<notin> cases_with rows cause then 1 else 0),
                d + (if k \<notin> cases_with rows cause \<and> k \<in> cases_with rows effect
                        \<and> occurs_by rows k x effect then 1 else 0))"
proof -
  have mc: "cause \<in> set [cause, effect, x]" and me: "effect \<in> set [cause, effect, x]"
    and mx: "x \<in> set [cause, effect, x]" by simp_all
  note unfold = prob_diff_body_def Let_def prod.case trace_any [OF mc] trace_any [OF me]
    trace_any [OF mx] trace_all [OF mc] trace_times [OF mc] trace_times [OF me] trace_times [OF mx]
  show ?thesis
  proof (cases "k \<in> cases_with rows cause")
    case kc: True
    show ?thesis
    proof (cases "k \<in> cases_with rows effect")
      case ke: True
      show ?thesis
        unfolding unfold
        using kx kc ke
        by (simp add: np_min_times np_max_times occurs_by_def)
    next
      case ke: False
      show ?thesis
        unfolding unfold
        using kx kc ke by simp
    qed
  next
    case kc: False
    show ?thesis
    proof (cases "k \<in> cases_with rows effect")
      case ke: True
      show ?thesis
        unfolding unfold
        using kx kc ke
        by (simp add: np_min_times np_max_times occurs_by_def)
    next
      case ke: False
      show ?thesis
        unfolding unfold
        using kx kc ke by simp
    qed
  qed
qed


lemma prob_diff_loop_eq:
  assumes "set ks \<subseteq> cases_with rows x"
  shows "prob_diff_loop (filter (\<lambda>r. isin (row_obs r) [cause, effect, x]) rows) effect cause x ks (a, b, c, d)
         = Inr (a + length (filter (\<lambda>k. k \<in> cases_with rows cause) ks),
                b + length (filter (\<lambda>k. k \<in> cases_with rows cause \<and> k \<in> cases_with rows effect
                        \<and> occurs_by rows k cause effect \<and> occurs_by rows k x effect) ks),
                c + length (filter (\<lambda>k. k \<notin> cases_with rows cause) ks),
                d + length (filter (\<lambda>k. k \<notin> cases_with rows cause \<and> k \<in> cases_with rows effect
                        \<and> occurs_by rows k x effect) ks))"
  using assms
proof (induction ks arbitrary: a b c d)
  case Nil
  show ?case by simp
next
  case (Cons k ks)
  then have k: "k \<in> cases_with rows x" and ks: "set ks \<subseteq> cases_with rows x"
    by auto
  show ?case
    by (simp add: prob_diff_body_eq [OF k] Cons.IH [OF ks])
qed

lemma prob_diff_counters:
  "prob_diff_loop (filter (\<lambda>r. isin (row_obs r) [cause, effect, x]) rows) effect cause x
     (unique (map row_case
        (filter (\<lambda>r. row_obs r = x) (filter (\<lambda>r. isin (row_obs r) [cause, effect, x]) rows))))
     (0, 0, 0, 0)
   = Inr (c_and_x_spec rows cause x, c_and_x_and_e_spec rows effect cause x,
          not_c_and_x_spec rows cause x, not_c_and_x_and_e_spec rows effect cause x)"
proof -
  let ?sub = "filter (\<lambda>r. isin (row_obs r) [cause, effect, x]) rows"
  let ?ks = "unique (map row_case (filter (\<lambda>r. row_obs r = x) ?sub))"
  let ?C = "cases_with rows cause" and ?E = "cases_with rows effect" and ?X = "cases_with rows x"
  have mx: "x \<in> set [cause, effect, x]" by simp
  have sk: "set ?ks = ?X"
    by (simp only: set_unique filter_label [OF mx] cases_with_def)
  have dk: "distinct ?ks" by simp
  have n1: "length (filter (\<lambda>k. k \<in> ?C) ?ks) = c_and_x_spec rows cause x"
    unfolding length_filter_card [OF dk] sk c_and_x_spec_def
    by (rule arg_cong [where f = card]) auto
  have n2: "length (filter (\<lambda>k. k \<in> ?C \<and> k \<in> ?E \<and> occurs_by rows k cause effect
                \<and> occurs_by rows k x effect) ?ks) = c_and_x_and_e_spec rows effect cause x"
    unfolding length_filter_card [OF dk] sk c_and_x_and_e_spec_def
    by (rule arg_cong [where f = card]) auto
  have n3: "length (filter (\<lambda>k. k \<notin> ?C) ?ks) = not_c_and_x_spec rows cause x"
    unfolding length_filter_card [OF dk] sk not_c_and_x_spec_def
    by (rule arg_cong [where f = card]) auto
  have n4: "length (filter (\<lambda>k. k \<notin> ?C \<and> k \<in> ?E \<and> occurs_by rows k x effect) ?ks)
            = not_c_and_x_and_e_spec rows effect cause x"
    unfolding length_filter_card [OF dk] sk not_c_and_x_and_e_spec_def
    by (rule arg_cong [where f = card]) auto
  show ?thesis
    using prob_diff_loop_eq [of ?ks rows x cause effect 0 0 0 0] sk
    by (simp only: n1 n2 n3 n4 add_0 subset_refl)
qed

lemma calculate_probability_differences_eq:
  "calculate_probability_differences self effect cause x
   = Inr (delta_double (source self) effect cause x)"
  unfolding calculate_probability_differences_def Let_def prob_diff_counters bind_e_Inr prod.case
  by (simp add: delta_double_def truediv_def float_sub_def)

lemma eps_x_loop_eq:
  "eps_x_loop self effect cause xs eps_x
   = Inr (foldl float_add eps_x (map (delta_double (source self) effect cause) xs))"
  by (induction xs arbitrary: eps_x)
     (simp_all add: calculate_probability_differences_eq)

lemma get_epsilon_average_eq:
  "get_epsilon_average self effect cause =
     (case prima_facie self effect of
        None \<Rightarrow> Inl KeyError
      | Some causes \<Rightarrow>
          (let others = filter (\<lambda>x. x \<noteq> cause) causes
           in if others = [] then Inr None
              else Inr (Some (double
                     (foldl float_add 0 (map (delta_double (source self) effect cause) others)
                      / double (of_nat (length others)))))))"
  by (simp add: get_epsilon_average_def eps_x_loop_eq float_div_int_def Let_def
        split: option.splits)

section \<open>The significance test and the prima-facie loop\<close>

lemma traces_total:
  "traces self = length (unique (map row_case (source self))) \<Longrightarrow>
   traces self = total_traces (source self)"
  by (simp add: length_unique total_traces_def)

lemma cases_with_subset: "cases_with rows obs \<subseteq> set (map row_case rows)"
  by (auto simp: cases_with_def)

lemma total_traces_pos:
  assumes "0 < card (cases_with rows obs)"
  shows "0 < total_traces rows"
proof -
  have "card (cases_with rows obs) \<le> card (set (map row_case rows))"
    by (rule card_mono [OF _ cases_with_subset]) simp
  then show ?thesis using assms by (simp add: total_traces_def)
qed

lemma is_prima_facie_zero: "is_prima_facie self c_and_e 0 e_trues = Inr False"
  by (simp add: is_prima_facie_def)

lemma is_prima_facie_value:
  "c_trues = 0 \<or> 0 < traces self \<Longrightarrow>
   is_prima_facie self c_and_e c_trues e_trues =
     Inr (0 < c_trues
          \<and> double (of_nat e_trues / of_nat (traces self))
              < double (of_nat c_and_e / of_nat c_trues))"
  by (auto simp: is_prima_facie_def truediv_def)

lemma is_prima_facie_counts:
  assumes "traces self = length (unique (map row_case (source self)))"
  shows "is_prima_facie self (c_and_e_spec (source self) cause effect)
           (card (cases_with (source self) cause)) (card (cases_with (source self) effect))
         = Inr (accepted_double (source self) cause effect)"
proof -
  have t: "traces self = total_traces (source self)" by (rule traces_total [OF assms])
  have "card (cases_with (source self) cause) = 0 \<or> 0 < traces self"
    using total_traces_pos [of "source self" cause] t by (cases "card (cases_with (source self) cause)") simp_all
  then show ?thesis
    by (simp add: is_prima_facie_value accepted_double_def t)
qed

lemma prima_facie_body_eq:
  assumes "traces self = length (unique (map row_case (source self)))"
  shows "prima_facie_body self (cause, effect) =
           Inr (if accepted_double (source self) cause effect
                then self\<lparr>prima_facie :=
                       (prima_facie self)(effect \<mapsto> entry_of (prima_facie self) effect @ [cause])\<rparr>
                else self)"
  by (simp add: prima_facie_body_def test_cause_effect_pair_eq is_prima_facie_counts [OF assms]
        entry_of_def split: option.splits)

lemma accepted_causes_Nil [simp]: "accepted_causes rows [] effect = []"
  by (simp add: accepted_causes_def)

lemma accepted_causes_Cons:
  "accepted_causes rows ((c, e) # hyps) effect =
     (if e = effect \<and> accepted_double rows c effect then c # accepted_causes rows hyps effect
      else accepted_causes rows hyps effect)"
  by (simp add: accepted_causes_def)

lemma prima_facie_loop_eq:
  assumes "traces self = length (unique (map row_case (source self)))"
  shows "\<exists>self'. prima_facie_loop self hyps = Inr self'
           \<and> source self' = source self \<and> traces self' = traces self
           \<and> hypotheses self' = hypotheses self
           \<and> (\<forall>effect. prima_facie self' effect =
                 (if accepted_causes (source self) hyps effect = [] then prima_facie self effect
                  else Some (entry_of (prima_facie self) effect
                             @ accepted_causes (source self) hyps effect)))"
  using assms
proof (induction hyps arbitrary: self)
  case Nil
  show ?case by simp
next
  case (Cons h hyps)
  obtain c e where h: "h = (c, e)" by (cases h)
  let ?self1 = "if accepted_double (source self) c e
                then self\<lparr>prima_facie := (prima_facie self)(e \<mapsto> entry_of (prima_facie self) e @ [c])\<rparr>
                else self"
  have body: "prima_facie_body self h = Inr ?self1"
    unfolding h by (rule prima_facie_body_eq [OF Cons.prems])
  have keep: "source ?self1 = source self" "traces ?self1 = traces self"
    "hypotheses ?self1 = hypotheses self"
    by simp_all
  have inv1: "traces ?self1 = length (unique (map row_case (source ?self1)))"
    using Cons.prems by (simp only: keep)
  from Cons.IH [OF inv1] obtain self' where
    loop: "prima_facie_loop ?self1 hyps = Inr self'"
    and src: "source self' = source ?self1" and tr: "traces self' = traces ?self1"
    and hy: "hypotheses self' = hypotheses ?self1"
    and pf: "\<forall>effect. prima_facie self' effect =
                 (if accepted_causes (source ?self1) hyps effect = [] then prima_facie ?self1 effect
                  else Some (entry_of (prima_facie ?self1) effect
                             @ accepted_causes (source ?self1) hyps effect))"
    by blast
  have step: "prima_facie_loop self (h # hyps) = Inr self'"
    by (simp only: prima_facie_loop.simps body sum.case loop)
  have pf': "prima_facie self' effect =
        (if accepted_causes (source self) (h # hyps) effect = [] then prima_facie self effect
         else Some (entry_of (prima_facie self) effect
                    @ accepted_causes (source self) (h # hyps) effect))" for effect
    using pf [rule_format, of effect]
    by (simp only: keep) (auto simp: h accepted_causes_Cons entry_of_def)
  show ?case
    using step src tr hy pf' by (simp only: keep) blast
qed

lemma test_for_prima_facie_eq:
  assumes "traces self = length (unique (map row_case (source self)))"
  shows "\<exists>self'. test_for_prima_facie self = Inr self'
           \<and> source self' = source self \<and> traces self' = traces self
           \<and> hypotheses self' = hypotheses self
           \<and> (\<forall>effect. prima_facie self' effect =
                 (if accepted_causes (source self) (hypotheses self) effect = []
                  then prima_facie self effect
                  else Some (entry_of (prima_facie self) effect
                             @ accepted_causes (source self) (hypotheses self) effect)))"
  unfolding test_for_prima_facie_def by (rule prima_facie_loop_eq [OF assms])

lemma init_traces: "traces (init rows) = length (unique (map row_case (source (init rows))))"
  by (simp add: init_def populate_vars_def)

lemma generate_hypotheses_keeps:
  "source (generate_hypotheses_for_effects self causes effects) = source self"
  "traces (generate_hypotheses_for_effects self causes effects) = traces self"
  "prima_facie (generate_hypotheses_for_effects self causes effects) = prima_facie self"
  by (simp_all add: generate_hypotheses_for_effects_def)

lemma source_init: "source (init rows) = rows"
  by (simp add: init_def populate_vars_def)

lemma accepted_causes_distinct:
  assumes "distinct hyps"
  shows "distinct (accepted_causes rows hyps effect)"
proof -
  let ?sel = "filter (\<lambda>h. snd h = effect \<and> accepted_double rows (fst h) effect) hyps"
  have "inj_on fst (set ?sel)"
    by (rule inj_onI) (auto simp: prod_eq_iff)
  moreover have "distinct ?sel" using assms by simp
  ultimately show ?thesis
    unfolding accepted_causes_def by (simp only: distinct_map simp_thms)
qed

lemma generated_hypotheses_distinct:
  assumes "distinct causes" and "distinct effects"
  shows "distinct (hypotheses (generate_hypotheses_for_effects self causes effects))"
proof -
  have "distinct (concat (map (\<lambda>effect. map (\<lambda>cause. (cause, effect))
                                      (filter (\<lambda>cause. cause \<noteq> effect) causes)) effects))"
    using assms(2)
  proof (induction effects)
    case Nil
    show ?case by simp
  next
    case (Cons e es)
    have "distinct (map (\<lambda>cause. (cause, e)) (filter (\<lambda>cause. cause \<noteq> e) causes))"
      using assms(1) by (simp add: distinct_map inj_on_def)
    then show ?case using Cons by auto
  qed
  then show ?thesis by (simp add: generate_hypotheses_for_effects_def)
qed

lemma first_run_entries_distinct:
  assumes "traces self = length (unique (map row_case (source self)))"
    and "prima_facie self = Map.empty" and "distinct (hypotheses self)"
    and "test_for_prima_facie self = Inr self'" and "prima_facie self' effect = Some causes"
  shows "distinct causes"
proof -
  from test_for_prima_facie_eq [OF assms(1)] assms(4)
  have "prima_facie self' effect =
          (if accepted_causes (source self) (hypotheses self) effect = [] then prima_facie self effect
           else Some (entry_of (prima_facie self) effect
                      @ accepted_causes (source self) (hypotheses self) effect))"
    by auto
  then have "causes = accepted_causes (source self) (hypotheses self) effect"
    using assms(2,5) by (auto simp: entry_of_def split: if_splits)
  then show ?thesis using accepted_causes_distinct [OF assms(3)] by simp
qed

section \<open>Rounded and exact comparison, rounded and exact difference\<close>

lemma double_separated:
  assumes "\<bar>x\<bar> \<le> 1" and "\<bar>y\<bar> \<le> 1" and "1 / 2 ^ 52 < y - x"
  shows "double x < double y"
proof -
  define h :: rat where "h = 1 / 2 ^ 53"
  have ex: "\<bar>double x - x\<bar> \<le> h" unfolding h_def by (rule double_error [OF assms(1)])
  have ey: "\<bar>double y - y\<bar> \<le> h" unfolding h_def by (rule double_error [OF assms(2)])
  have "h + h = 1 / 2 ^ 52" by (simp add: h_def)
  then have "h + h < y - x" using assms(3) by simp
  then show ?thesis using ex ey by linarith
qed

lemma quotient_gap:
  fixes a b c d :: nat
  assumes "0 < b" and "0 < d" and "(of_nat c / of_nat d :: rat) < of_nat a / of_nat b"
  shows "1 / of_nat (b * d) \<le> (of_nat a / of_nat b - of_nat c / of_nat d :: rat)"
proof -
  have "(of_nat c * of_nat b :: rat) < of_nat a * of_nat d"
    using assms by (simp add: divide_simps mult.commute)
  then have "c * b < a * d" by (metis of_nat_less_iff of_nat_mult)
  then have "c * b + 1 \<le> a * d" by simp
  then have "(of_nat (c * b + 1) :: rat) \<le> of_nat (a * d)" by (simp only: of_nat_le_iff)
  then have le: "(of_nat c * of_nat b + 1 :: rat) \<le> of_nat a * of_nat d" by simp
  have "(of_nat a / of_nat b - of_nat c / of_nat d :: rat)
        = (of_nat a * of_nat d - of_nat c * of_nat b) / of_nat (b * d)"
    using assms(1,2) by (simp add: divide_simps)
  also have "\<dots> \<ge> 1 / of_nat (b * d)"
    using le assms(1,2) by (intro divide_right_mono) simp_all
  finally show ?thesis .
qed

lemma double_less_quotients:
  fixes a b c d :: nat
  assumes "0 < b" and "0 < d" and "a \<le> b" and "c \<le> d" and "b * d < 2 ^ 52"
    and "(of_nat c / of_nat d :: rat) < of_nat a / of_nat b"
  shows "double (of_nat c / of_nat d) < double (of_nat a / of_nat b)"
proof -
  have x: "\<bar>of_nat c / of_nat d :: rat\<bar> \<le> 1" using assms(2,4) by (simp add: divide_simps)
  have y: "\<bar>of_nat a / of_nat b :: rat\<bar> \<le> 1" using assms(1,3) by (simp add: divide_simps)
  have "(of_nat (b * d) :: rat) < of_nat (2 ^ 52)" using assms(5) by (simp only: of_nat_less_iff)
  then have "(of_nat (b * d) :: rat) < 2 ^ 52" by simp
  moreover have "(0::rat) < of_nat (b * d)" using assms(1,2) by simp
  ultimately have "(1::rat) / 2 ^ 52 < 1 / of_nat (b * d)"
    by (intro divide_strict_left_mono) simp_all
  with quotient_gap [OF assms(1,2,6)] have "1 / 2 ^ 52 < (of_nat a / of_nat b - of_nat c / of_nat d :: rat)"
    by linarith
  then show ?thesis by (rule double_separated [OF x y])
qed

lemma double_compare_quotients:
  fixes a b c d :: nat
  assumes "0 < b" and "0 < d" and "a \<le> b" and "c \<le> d" and "b * d < 2 ^ 52"
  shows "double (of_nat c / of_nat d) < double (of_nat a / of_nat b)
         \<longleftrightarrow> (of_nat c / of_nat d :: rat) < of_nat a / of_nat b"
proof
  assume "(of_nat c / of_nat d :: rat) < of_nat a / of_nat b"
  then show "double (of_nat c / of_nat d) < double (of_nat a / of_nat b)"
    by (rule double_less_quotients [OF assms])
next
  assume l: "double (of_nat c / of_nat d) < double (of_nat a / of_nat b)"
  show "(of_nat c / of_nat d :: rat) < of_nat a / of_nat b"
  proof (rule ccontr)
    assume "\<not> (of_nat c / of_nat d :: rat) < of_nat a / of_nat b"
    then consider "(of_nat a / of_nat b :: rat) = of_nat c / of_nat d"
      | "(of_nat a / of_nat b :: rat) < of_nat c / of_nat d" by linarith
    then show False
    proof cases
      case 1
      then show False using l by simp
    next
      case 2
      have "d * b < 2 ^ 52" using assms(5) by (simp add: mult.commute)
      from double_less_quotients [OF assms(2,1,4,3) this 2] l show False by simp
    qed
  qed
qed

lemma c_and_e_spec_le: "c_and_e_spec rows cause effect \<le> card (cases_with rows cause)"
  unfolding c_and_e_spec_def by (rule card_mono) (auto simp: cases_with_def)

lemma cases_with_le_total: "card (cases_with rows obs) \<le> total_traces rows"
  unfolding total_traces_def by (rule card_mono [OF _ cases_with_subset]) simp

lemma accepted_double_iff_spec:
  assumes "card (cases_with rows cause) * total_traces rows < 2 ^ 52"
  shows "accepted_double rows cause effect \<longleftrightarrow> accepted_spec rows cause effect"
proof (cases "0 < card (cases_with rows cause)")
  case False
  then show ?thesis by (simp add: accepted_double_def accepted_spec_def)
next
  case True
  have t: "0 < total_traces rows" by (rule total_traces_pos [OF True])
  show ?thesis
    unfolding accepted_double_def accepted_spec_def
    using double_compare_quotients [OF True t c_and_e_spec_le [of rows cause effect]
        cases_with_le_total [of rows effect] assms] True
    by simp
qed

lemma c_and_x_and_e_spec_le: "c_and_x_and_e_spec rows effect cause x \<le> c_and_x_spec rows cause x"
  unfolding c_and_x_and_e_spec_def c_and_x_spec_def by (rule card_mono) (auto simp: cases_with_def)

lemma not_c_and_x_and_e_spec_le:
  "not_c_and_x_and_e_spec rows effect cause x \<le> not_c_and_x_spec rows cause x"
  unfolding not_c_and_x_and_e_spec_def not_c_and_x_spec_def
  by (rule card_mono) (auto simp: cases_with_def)

lemma double_quotient_unit:
  fixes a b :: nat
  assumes "0 < b" and "a \<le> b"
  shows "0 \<le> double (of_nat a / of_nat b)" and "double (of_nat a / of_nat b) \<le> 1"
    and "\<bar>double (of_nat a / of_nat b) - of_nat a / of_nat b\<bar> \<le> 1 / 2 ^ 53"
proof -
  have q: "\<bar>of_nat a / of_nat b :: rat\<bar> \<le> 1" using assms by (simp add: divide_simps)
  show "0 \<le> double (of_nat a / of_nat b)" by (rule double_bounds(2) [OF q]) simp
  show "double (of_nat a / of_nat b) \<le> 1" using double_bounds(1) [OF q] by linarith
  show "\<bar>double (of_nat a / of_nat b) - of_nat a / of_nat b\<bar> \<le> 1 / 2 ^ 53"
    by (rule double_error [OF q])
qed

lemma delta_double_error:
  "\<bar>delta_double rows effect cause x - delta_spec rows effect cause x\<bar> \<le> 3 / 2 ^ 53"
proof (cases "c_and_x_spec rows cause x = 0 \<or> not_c_and_x_spec rows cause x = 0")
  case True
  then show ?thesis by (simp add: delta_double_def delta_spec_def)
next
  case False
  let ?p = "of_nat (c_and_x_and_e_spec rows effect cause x) / of_nat (c_and_x_spec rows cause x) :: rat"
  let ?n = "of_nat (not_c_and_x_and_e_spec rows effect cause x)
            / of_nat (not_c_and_x_spec rows cause x) :: rat"
  define h :: rat where "h = 1 / 2 ^ 53"
  from False have pos: "0 < c_and_x_spec rows cause x" "0 < not_c_and_x_spec rows cause x"
    by simp_all
  note p = double_quotient_unit [OF pos(1) c_and_x_and_e_spec_le, of effect]
  note n = double_quotient_unit [OF pos(2) not_c_and_x_and_e_spec_le, of effect]
  have ep: "\<bar>double ?p - ?p\<bar> \<le> h" and en: "\<bar>double ?n - ?n\<bar> \<le> h"
    unfolding h_def by (rule p(3), rule n(3))
  have "\<bar>double ?p - double ?n\<bar> \<le> 1" using p(1,2) n(1,2) by linarith
  then have ed: "\<bar>double (double ?p - double ?n) - (double ?p - double ?n)\<bar> \<le> h"
    unfolding h_def by (rule double_error)
  have "\<bar>double (double ?p - double ?n) - (?p - ?n)\<bar> \<le> h + h + h"
    using ep en ed by linarith
  also have "h + h + h = 3 / 2 ^ 53" by (simp add: h_def)
  finally show ?thesis using False by (simp only: delta_double_def delta_spec_def if_False)
qed

lemma delta_double_unit: "\<bar>delta_double rows effect cause x\<bar> \<le> 1"
proof (cases "c_and_x_spec rows cause x = 0 \<or> not_c_and_x_spec rows cause x = 0")
  case True
  then show ?thesis by (simp add: delta_double_def)
next
  case False
  let ?p = "of_nat (c_and_x_and_e_spec rows effect cause x) / of_nat (c_and_x_spec rows cause x) :: rat"
  let ?n = "of_nat (not_c_and_x_and_e_spec rows effect cause x)
            / of_nat (not_c_and_x_spec rows cause x) :: rat"
  from False have pos: "0 < c_and_x_spec rows cause x" "0 < not_c_and_x_spec rows cause x"
    by simp_all
  note p = double_quotient_unit [OF pos(1) c_and_x_and_e_spec_le, of effect]
  note n = double_quotient_unit [OF pos(2) not_c_and_x_and_e_spec_le, of effect]
  have "\<bar>double ?p - double ?n\<bar> \<le> 1" using p(1,2) n(1,2) by linarith
  then have "\<bar>double (double ?p - double ?n)\<bar> \<le> 1" by (rule double_bounds(1))
  then show ?thesis using False by (simp add: delta_double_def)
qed

section \<open>The counts of the skewed log\<close>

lemma cases_with_iff: "k \<in> cases_with rows obs \<longleftrightarrow> (\<exists>t. (k, obs, t) \<in> set rows)"
  by (force simp: mem_cases_with row_case_def row_obs_def)

lemma times_in_iff: "t \<in> times_in rows k obs \<longleftrightarrow> (k, obs, t) \<in> set rows"
  by (force simp: times_in_def row_case_def row_obs_def row_time_def image_iff)

lemma skewed_row_iff:
  "(k, obs, t) \<in> set (skewed_log both with_a n)
   \<longleftrightarrow> k < n \<and> (k, obs, t) \<in> set (skewed_rows both with_a k)"
proof -
  have uniq: "(k, obs, t) \<in> set (skewed_rows both with_a i) \<Longrightarrow> i = k" for i
    by (auto simp: skewed_rows_def split: if_splits)
  have mem: "(k, obs, t) \<in> set (skewed_log both with_a n)
             \<longleftrightarrow> (\<exists>i. i < n \<and> (k, obs, t) \<in> set (skewed_rows both with_a i))"
    unfolding skewed_log_def by (simp only: set_concat set_map set_upt) auto
  show ?thesis
  proof
    assume "(k, obs, t) \<in> set (skewed_log both with_a n)"
    then obtain i where i: "i < n" "(k, obs, t) \<in> set (skewed_rows both with_a i)"
      using mem by blast
    from uniq [OF i(2)] i show "k < n \<and> (k, obs, t) \<in> set (skewed_rows both with_a k)"
      by simp
  next
    assume "k < n \<and> (k, obs, t) \<in> set (skewed_rows both with_a k)"
    then show "(k, obs, t) \<in> set (skewed_log both with_a n)"
      unfolding mem by blast
  qed
qed


lemma skewed_cases_A:
  assumes "both \<le> with_a" and "with_a < n"
  shows "cases_with (skewed_log both with_a n) ''A'' = {i. i < with_a}"
  using assms
  by (auto simp: set_eq_iff cases_with_iff skewed_row_iff skewed_rows_def split: if_splits)

lemma skewed_cases_B:
  assumes "both \<le> with_a" and "with_a < n"
  shows "cases_with (skewed_log both with_a n) ''B'' = insert with_a {i. i < both}"
  using assms
  by (auto simp: set_eq_iff cases_with_iff skewed_row_iff skewed_rows_def split: if_splits)

lemma skewed_cases_all:
  "set (map row_case (skewed_log both with_a n)) = {i. i < n}"
proof -
  have "k \<in> set (map row_case (skewed_log both with_a n)) \<longleftrightarrow> k < n" for k
  proof -
    have "k \<in> set (map row_case (skewed_log both with_a n))
          \<longleftrightarrow> (\<exists>obs t. (k, obs, t) \<in> set (skewed_log both with_a n))"
      by (force simp: row_case_def image_iff)
    also have "\<dots> \<longleftrightarrow> k < n"
      by (auto simp: skewed_row_iff skewed_rows_def)
    finally show ?thesis .
  qed
  then show ?thesis by blast
qed

lemma skewed_times:
  assumes "k < both" and "both \<le> with_a" and "with_a < n"
  shows "times_in (skewed_log both with_a n) k ''A'' = {0}"
    and "times_in (skewed_log both with_a n) k ''B'' = {1}"
  using assms
  by (auto simp: set_eq_iff times_in_iff skewed_row_iff skewed_rows_def split: if_splits)

lemma skewed_counts:
  assumes "both \<le> with_a" and "with_a < n"
  shows "c_and_e_spec (skewed_log both with_a n) ''A'' ''B'' = both"
    and "card (cases_with (skewed_log both with_a n) ''A'') = with_a"
    and "card (cases_with (skewed_log both with_a n) ''B'') = both + 1"
    and "total_traces (skewed_log both with_a n) = n"
proof -
  let ?rows = "skewed_log both with_a n"
  have "{k \<in> cases_with ?rows ''A'' \<inter> cases_with ?rows ''B''. occurs_by ?rows k ''A'' ''B''}
        = {i. i < both}"
    using assms
    by (auto simp: skewed_cases_A [OF assms] skewed_cases_B [OF assms] occurs_by_def
          skewed_times [OF _ assms])
  then show "c_and_e_spec ?rows ''A'' ''B'' = both" by (simp add: c_and_e_spec_def)
  show "card (cases_with ?rows ''A'') = with_a" by (simp add: skewed_cases_A [OF assms])
  show "card (cases_with ?rows ''B'') = both + 1"
    using assms by (simp add: skewed_cases_B [OF assms])
  show "total_traces ?rows = n" by (simp add: total_traces_def skewed_cases_all del: set_map)
qed

section \<open>The state that the prima-facie loop leaves\<close>

lemma prima_facie_loop_state:
  assumes "traces self = length (unique (map row_case (source self)))"
  shows "prima_facie_loop self hyps =
           Inr (self\<lparr>prima_facie := \<lambda>effect.
                  if accepted_causes (source self) hyps effect = [] then prima_facie self effect
                  else Some (entry_of (prima_facie self) effect
                             @ accepted_causes (source self) hyps effect)\<rparr>)"
  using assms
proof (induction hyps arbitrary: self)
  case Nil
  show ?case by simp
next
  case (Cons h hyps)
  obtain c e where h: "h = (c, e)" by (cases h)
  show ?case
  proof (cases "accepted_double (source self) c e")
    case False
    have body: "prima_facie_body self h = Inr self"
      unfolding h using prima_facie_body_eq [OF Cons.prems, of c e] False by simp
    have acc: "accepted_causes (source self) (h # hyps) = accepted_causes (source self) hyps"
      using False by (intro ext) (auto simp: h accepted_causes_Cons)
    show ?thesis
      by (simp only: prima_facie_loop.simps body sum.case Cons.IH [OF Cons.prems] acc)
  next
    case True
    let ?pf1 = "(prima_facie self)(e \<mapsto> entry_of (prima_facie self) e @ [c])"
    let ?self1 = "self\<lparr>prima_facie := ?pf1\<rparr>"
    have body: "prima_facie_body self h = Inr ?self1"
      unfolding h using prima_facie_body_eq [OF Cons.prems, of c e] True by simp
    have inv1: "traces ?self1 = length (unique (map row_case (source ?self1)))"
      using Cons.prems by simp
    have fn: "(\<lambda>effect. if accepted_causes (source ?self1) hyps effect = []
                then prima_facie ?self1 effect
                else Some (entry_of (prima_facie ?self1) effect
                           @ accepted_causes (source ?self1) hyps effect))
            = (\<lambda>effect. if accepted_causes (source self) (h # hyps) effect = []
                then prima_facie self effect
                else Some (entry_of (prima_facie self) effect
                           @ accepted_causes (source self) (h # hyps) effect))"
      by (rule ext) (auto simp: h accepted_causes_Cons True entry_of_def)
    have "prima_facie_loop self (h # hyps) = prima_facie_loop ?self1 hyps"
      by (simp only: prima_facie_loop.simps body sum.case)
    also have "\<dots> = Inr (?self1\<lparr>prima_facie := \<lambda>effect.
                  if accepted_causes (source ?self1) hyps effect = [] then prima_facie ?self1 effect
                  else Some (entry_of (prima_facie ?self1) effect
                             @ accepted_causes (source ?self1) hyps effect)\<rparr>)"
      by (rule Cons.IH [OF inv1])
    also have "\<dots> = Inr (self\<lparr>prima_facie := \<lambda>effect.
                  if accepted_causes (source self) (h # hyps) effect = [] then prima_facie self effect
                  else Some (entry_of (prima_facie self) effect
                             @ accepted_causes (source self) (h # hyps) effect)\<rparr>)"
      unfolding fn by simp
    finally show ?thesis .
  qed
qed

section \<open>The prima-facie test\<close>

text \<open>
  Claim C1, as the code has it.  Let \<open>c_and_e\<close>, \<open>c_trues\<close> and \<open>e_trues\<close> be the counts
  that \<open>test_cause_effect_pair\<close> returns for a hypothesis, on an instance whose \<open>traces\<close>
  field is the number of distinct case identifiers of the log, as \<open>populate_vars\<close> sets
  it.  Then \<open>is_prima_facie\<close> returns, without raising, the truth value of
  \<open>c_trues > 0\<close> and \<open>c_and_e / c_trues > e_trues / total_traces\<close> with both quotients
  rounded to doubles before the comparison, and the loop body of \<open>test_for_prima_facie\<close>
  appends the cause to the entry of the effect exactly in that case.  When
  \<open>c_trues * total_traces < 2^52\<close> the rounding does not change the comparison, and the
  answer is that of the exact quotients.  With \<open>c_trues = 0\<close> the answer is \<open>False\<close> for
  all other inputs.
\<close>

theorem is_prima_facie_doubles:
  assumes "traces self = length (unique (map row_case (source self)))"
    and "test_cause_effect_pair self cause effect = Inr (c_and_e, c_trues, e_trues)"
  shows "is_prima_facie self c_and_e c_trues e_trues =
           Inr (0 < c_trues
                \<and> double (of_nat e_trues / of_nat (card (set (map row_case (source self)))))
                    < double (of_nat c_and_e / of_nat c_trues))
       \<and> (c_trues * card (set (map row_case (source self))) < 2 ^ 52 \<longrightarrow>
            is_prima_facie self c_and_e c_trues e_trues =
              Inr (0 < c_trues
                   \<and> (of_nat e_trues / of_nat (card (set (map row_case (source self)))) :: rat)
                       < of_nat c_and_e / of_nat c_trues))
       \<and> prima_facie_body self (cause, effect) =
           Inr (if 0 < c_trues
                   \<and> double (of_nat e_trues / of_nat (card (set (map row_case (source self)))))
                       < double (of_nat c_and_e / of_nat c_trues)
                then self\<lparr>prima_facie :=
                       (prima_facie self)(effect \<mapsto> entry_of (prima_facie self) effect @ [cause])\<rparr>
                else self)
       \<and> is_prima_facie other c_and_e' 0 e_trues' = Inr False"
proof -
  from assms(2) have c: "c_and_e = c_and_e_spec (source self) cause effect"
    "c_trues = card (cases_with (source self) cause)"
    "e_trues = card (cases_with (source self) effect)"
    by (simp_all add: test_cause_effect_pair_eq)
  have acc: "accepted_double (source self) cause effect \<longleftrightarrow>
      0 < c_trues \<and> double (of_nat e_trues / of_nat (card (set (map row_case (source self)))))
                    < double (of_nat c_and_e / of_nat c_trues)"
    unfolding c accepted_double_def total_traces_def ..
  have spec: "accepted_spec (source self) cause effect \<longleftrightarrow>
      0 < c_trues \<and> (of_nat e_trues / of_nat (card (set (map row_case (source self)))) :: rat)
                    < of_nat c_and_e / of_nat c_trues"
    unfolding c accepted_spec_def total_traces_def ..
  have 1: "is_prima_facie self c_and_e c_trues e_trues = Inr (accepted_double (source self) cause effect)"
    unfolding c by (rule is_prima_facie_counts [OF assms(1)])
  have 2: "prima_facie_body self (cause, effect) =
           Inr (if accepted_double (source self) cause effect
                then self\<lparr>prima_facie :=
                       (prima_facie self)(effect \<mapsto> entry_of (prima_facie self) effect @ [cause])\<rparr>
                else self)"
    by (rule prima_facie_body_eq [OF assms(1)])
  have 3: "is_prima_facie self c_and_e c_trues e_trues = Inr (accepted_spec (source self) cause effect)"
    if "c_trues * card (set (map row_case (source self))) < 2 ^ 52"
    using that accepted_double_iff_spec [of "source self" cause effect] 1
    by (simp add: c total_traces_def)
  show ?thesis
    using 1 2 3 is_prima_facie_zero [of other c_and_e' e_trues'] unfolding acc spec by blast
qed

theorem is_prima_facie_doubles_witness:
  "is_prima_facie (init scenario_log) 2 3 2 = Inr True
   \<and> prima_facie_body (init scenario_log) (''A'', ''B'') =
       Inr ((init scenario_log)\<lparr>prima_facie := Map.empty(''B'' \<mapsto> [''A''])\<rparr>)
   \<and> is_prima_facie (init scenario_log) 2 0 2 = Inr False"
proof -
  have inv: "traces (init scenario_log) = length (unique (map row_case (source (init scenario_log))))"
    by (rule init_traces)
  have counts: "test_cause_effect_pair (init scenario_log) ''A'' ''B'' = Inr (2, 3, 2)"
    by code_simp
  have total: "card (set (map row_case (source (init scenario_log)))) = 4"
    by code_simp
  have pf: "prima_facie (init scenario_log) = Map.empty"
    by (simp add: init_def populate_vars_def)
  note t = is_prima_facie_doubles [OF inv counts, of "init scenario_log" 2 2, unfolded total]
  have small: "(3::nat) * 4 < 2 ^ 52" by simp
  have exact: "is_prima_facie (init scenario_log) 2 3 2 = Inr True"
    using t [THEN conjunct2, THEN conjunct1] small by simp
  have body: "prima_facie_body (init scenario_log) (''A'', ''B'') =
       Inr ((init scenario_log)\<lparr>prima_facie := Map.empty(''B'' \<mapsto> [''A''])\<rparr>)"
    using t [THEN conjunct2, THEN conjunct2, THEN conjunct1] t [THEN conjunct1] exact
    by (simp add: pf entry_of_def)
  show ?thesis
    using exact body t [THEN conjunct2, THEN conjunct2, THEN conjunct2] by simp
qed

text \<open>
  The claim as the specification states it, with exact quotients, fails on a log of
  \<open>2^28\<close> cases.  \<open>A\<close> occurs in 268435454 cases, in 134217728 of them before \<open>B\<close>, and
  \<open>B\<close> occurs in 134217729 cases.  The first quotient is greater than the second, and
  both round to the same double, so the hypothesis is not accepted.
\<close>

theorem is_prima_facie_counterexample:
  "test_cause_effect_pair (init large_log) ''A'' ''B'' = Inr (134217728, 268435454, 134217729)
   \<and> traces (init large_log) = 268435456
   \<and> card (set (map row_case (source (init large_log)))) = 268435456
   \<and> (134217729 / 268435456 :: rat) < 134217728 / 268435454
   \<and> is_prima_facie (init large_log) 134217728 268435454 134217729 = Inr False"
proof -
  have le: "(134217728::nat) \<le> 268435454" "(268435454::nat) < 268435456" by simp_all
  note counts = skewed_counts [OF le]
  have src: "source (init large_log) = skewed_log 134217728 268435454 268435456"
    by (simp add: source_init large_log_def)
  have total: "card (set (map row_case (source (init large_log)))) = 268435456"
    using counts(4) by (simp only: src total_traces_def)
  have tr: "traces (init large_log) = 268435456"
    using traces_total [OF init_traces, of large_log] counts(4) by (simp only: src)
  have pair: "test_cause_effect_pair (init large_log) ''A'' ''B''
              = Inr (134217728, 268435454, 134217729)"
    by (simp only: test_cause_effect_pair_eq src counts) simp
  have same: "double (134217729 / 268435456) = double (134217728 / 268435454)"
    by code_simp
  have "is_prima_facie (init large_log) 134217728 268435454 134217729 = Inr False"
    by (simp add: is_prima_facie_def truediv_def tr same)
  then show ?thesis using pair tr total by simp
qed

text \<open>
  Claim C2.  The first count returned by \<open>test_cause_effect_pair\<close> is the number of
  cases, among those that contain both the cause and the effect, in which the earliest
  timestamp of the cause is at most the latest timestamp of the effect; the other two
  counts are the numbers of cases that contain the cause and the effect.
\<close>

theorem c_and_e_weak_precedence:
  "test_cause_effect_pair self cause effect =
     Inr (card {k \<in> cases_with (source self) cause \<inter> cases_with (source self) effect.
                  Min (times_in (source self) k cause) \<le> Max (times_in (source self) k effect)},
          card (cases_with (source self) cause),
          card (cases_with (source self) effect))"
  using test_cause_effect_pair_eq [of self cause effect]
  by (simp only: c_and_e_spec_def occurs_by_def)

theorem c_and_e_weak_precedence_witness:
  "card {k \<in> cases_with interleaved_log ''A'' \<inter> cases_with interleaved_log ''B''.
           Min (times_in interleaved_log k ''A'') \<le> Max (times_in interleaved_log k ''B'')} = 1
   \<and> test_cause_effect_pair (init interleaved_log) ''A'' ''B'' = Inr (1, 3, 2)"
proof -
  have counts: "test_cause_effect_pair (init interleaved_log) ''A'' ''B'' = Inr (1, 3, 2)"
    by code_simp
  show ?thesis
    using c_and_e_weak_precedence [of "init interleaved_log" "''A''" "''B''"]
    by (simp add: counts source_init)
qed

text \<open>
  Claim C10.  On an instance whose \<open>traces\<close> field is the number of distinct case
  identifiers of the log, no hypothesis makes the prima-facie decision divide by zero.
  \<open>is_prima_facie\<close> raises \<open>ZeroDivisionError\<close> only when \<open>c_trues\<close> is not zero and
  \<open>traces\<close> is zero; the counts of \<open>test_cause_effect_pair\<close> never are of that kind,
  because a cause that occurs in some case makes the log have at least one case.  So
  the decision returns a truth value for every hypothesis, and \<open>test_for_prima_facie\<close>
  runs to the end of every hypothesis list.
\<close>

theorem prima_facie_never_divides_by_zero:
  assumes "traces self = length (unique (map row_case (source self)))"
  shows "(\<exists>c_and_e c_trues e_trues accepted.
            test_cause_effect_pair self cause effect = Inr (c_and_e, c_trues, e_trues)
          \<and> (c_trues = 0 \<or> 1 \<le> traces self)
          \<and> is_prima_facie self c_and_e c_trues e_trues = Inr accepted)
       \<and> (\<exists>self'. test_for_prima_facie self = Inr self')
       \<and> is_prima_facie other n 0 m = Inr False
       \<and> (is_prima_facie other n k m = Inl ZeroDivisionError \<longleftrightarrow> k \<noteq> 0 \<and> traces other = 0)"
proof -
  have t: "traces self = total_traces (source self)" by (rule traces_total [OF assms])
  have pos: "card (cases_with (source self) cause) = 0 \<or> 1 \<le> traces self"
    using total_traces_pos [of "source self" cause] t
    by (cases "card (cases_with (source self) cause)") simp_all
  have 1: "\<exists>c_and_e c_trues e_trues accepted.
            test_cause_effect_pair self cause effect = Inr (c_and_e, c_trues, e_trues)
          \<and> (c_trues = 0 \<or> 1 \<le> traces self)
          \<and> is_prima_facie self c_and_e c_trues e_trues = Inr accepted"
    using test_cause_effect_pair_eq [of self cause effect] pos is_prima_facie_counts [OF assms]
    by blast
  have 2: "\<exists>self'. test_for_prima_facie self = Inr self'"
    using test_for_prima_facie_eq [OF assms] by blast
  have 3: "is_prima_facie other n k m = Inl ZeroDivisionError \<longleftrightarrow> k \<noteq> 0 \<and> traces other = 0"
    by (auto simp: is_prima_facie_def truediv_def)
  show ?thesis using 1 2 3 is_prima_facie_zero [of other n m] by blast
qed

theorem prima_facie_never_divides_by_zero_witness:
  "(\<exists>self'. test_for_prima_facie
              (generate_hypotheses_for_effects (init scenario_log)
                 [''A'', ''B'', ''C''] [''A'', ''B'', ''C'']) = Inr self')
   \<and> 1 \<le> traces (init scenario_log)"
proof -
  let ?self = "generate_hypotheses_for_effects (init scenario_log)
                 [''A'', ''B'', ''C''] [''A'', ''B'', ''C'']"
  have inv: "traces ?self = length (unique (map row_case (source ?self)))"
    by (simp only: generate_hypotheses_keeps init_traces)
  have "traces (init scenario_log) = 4" by code_simp
  then show ?thesis
    using prima_facie_never_divides_by_zero [OF inv, THEN conjunct2, THEN conjunct1] by simp
qed

text \<open>
  Claim C6.  When \<open>test_for_prima_facie\<close> is run a second time on the instance that the
  first run left, with the same log and the same hypotheses, both runs complete, the
  same effects have an entry, and every effect has the same set of causes as after the
  first run.  The stored lists are not the same: the second run appends the accepted
  causes of an effect once more to its entry.
\<close>

theorem test_for_prima_facie_twice:
  assumes "traces self = length (unique (map row_case (source self)))"
  shows "\<exists>first second.
           test_for_prima_facie self = Inr first \<and> test_for_prima_facie first = Inr second
         \<and> source first = source self \<and> hypotheses first = hypotheses self
         \<and> dom (prima_facie second) = dom (prima_facie first)
         \<and> (\<forall>effect. causes_of (prima_facie second) effect = causes_of (prima_facie first) effect)
         \<and> (\<forall>effect. entry_of (prima_facie second) effect =
               entry_of (prima_facie first) effect
               @ accepted_causes (source self) (hypotheses self) effect)"
proof -
  from test_for_prima_facie_eq [OF assms] obtain first where
    r1: "test_for_prima_facie self = Inr first"
    and s1: "source first = source self" and t1: "traces first = traces self"
    and h1: "hypotheses first = hypotheses self"
    and p1: "\<And>effect. prima_facie first effect =
                 (if accepted_causes (source self) (hypotheses self) effect = []
                  then prima_facie self effect
                  else Some (entry_of (prima_facie self) effect
                             @ accepted_causes (source self) (hypotheses self) effect))"
    by blast
  have inv1: "traces first = length (unique (map row_case (source first)))"
    using assms by (simp only: s1 t1)
  from test_for_prima_facie_eq [OF inv1] obtain second where
    r2: "test_for_prima_facie first = Inr second"
    and p2: "\<And>effect. prima_facie second effect =
                 (if accepted_causes (source self) (hypotheses self) effect = []
                  then prima_facie first effect
                  else Some (entry_of (prima_facie first) effect
                             @ accepted_causes (source self) (hypotheses self) effect))"
    unfolding s1 h1 by blast
  have d: "dom (prima_facie second) = dom (prima_facie first)"
    by (auto simp: dom_def p2 p1)
  have c: "causes_of (prima_facie second) effect = causes_of (prima_facie first) effect" for effect
    unfolding causes_of_def by (auto simp: p2 p1 entry_of_def)
  have e: "entry_of (prima_facie second) effect =
               entry_of (prima_facie first) effect
               @ accepted_causes (source self) (hypotheses self) effect" for effect
    unfolding entry_of_def [of "prima_facie second"] by (simp add: p2) (simp add: entry_of_def)
  show ?thesis using r1 r2 s1 h1 d c e by blast
qed

theorem test_for_prima_facie_twice_witness:
  "\<exists>first second.
     test_for_prima_facie confounder_start = Inr first \<and> test_for_prima_facie first = Inr second
     \<and> causes_of (prima_facie second) ''B'' = causes_of (prima_facie first) ''B''
     \<and> entry_of (prima_facie second) ''B'' = entry_of (prima_facie first) ''B'' @ [''A'', ''X'', ''Y'']"
proof -
  have inv: "traces confounder_start = length (unique (map row_case (source confounder_start)))"
    unfolding confounder_start_def by (simp only: generate_hypotheses_keeps init_traces)
  have acc: "accepted_causes (source confounder_start) (hypotheses confounder_start) ''B''
             = [''A'', ''X'', ''Y'']"
    by code_simp
  from test_for_prima_facie_twice [OF inv] obtain first second where
    r: "test_for_prima_facie confounder_start = Inr first" "test_for_prima_facie first = Inr second"
    and c: "\<And>effect. causes_of (prima_facie second) effect = causes_of (prima_facie first) effect"
    and e: "\<And>effect. entry_of (prima_facie second) effect =
               entry_of (prima_facie first) effect
               @ accepted_causes (source confounder_start) (hypotheses confounder_start) effect"
    by blast
  have "entry_of (prima_facie second) ''B'' = entry_of (prima_facie first) ''B'' @ [''A'', ''X'', ''Y'']"
    using e [of "''B''"] by (simp only: acc)
  with r c [of "''B''"] show ?thesis by blast
qed

section \<open>The epsilon score\<close>

text \<open>
  Claim C4, as the code has it.  \<open>calculate_probability_differences\<close> never raises.  Its
  four counters end as the numbers of \<open>x\<close>-cases with the cause, of those in which the
  effect occurs with both the cause and \<open>x\<close> occurring by it, of \<open>x\<close>-cases without the
  cause, and of those in which the effect occurs with \<open>x\<close> occurring by it.  The result
  is 0 when \<open>c_and_x\<close> or \<open>not_c_and_x\<close> is 0.  Otherwise it is the value of
  \<open>c_and_x_and_e / c_and_x - not_c_and_x_and_e / not_c_and_x\<close> in double arithmetic: each
  quotient is rounded to a double and so is their difference.  The result differs from
  the exact value of the expression by at most \<open>3 / 2^53\<close>.
\<close>

theorem probability_difference_doubles:
  "prob_diff_loop (filter (\<lambda>r. isin (row_obs r) [cause, effect, x]) (source self)) effect cause x
     (unique (map row_case (filter (\<lambda>r. row_obs r = x)
        (filter (\<lambda>r. isin (row_obs r) [cause, effect, x]) (source self)))))
     (0, 0, 0, 0)
   = Inr (c_and_x_spec (source self) cause x, c_and_x_and_e_spec (source self) effect cause x,
          not_c_and_x_spec (source self) cause x,
          not_c_and_x_and_e_spec (source self) effect cause x)
   \<and> calculate_probability_differences self effect cause x =
       Inr (if c_and_x_spec (source self) cause x = 0 \<or> not_c_and_x_spec (source self) cause x = 0
            then 0
            else double
                   (double (of_nat (c_and_x_and_e_spec (source self) effect cause x)
                            / of_nat (c_and_x_spec (source self) cause x))
                    - double (of_nat (not_c_and_x_and_e_spec (source self) effect cause x)
                              / of_nat (not_c_and_x_spec (source self) cause x))))
   \<and> (\<exists>d. calculate_probability_differences self effect cause x = Inr d
          \<and> \<bar>d - (if c_and_x_spec (source self) cause x = 0
                       \<or> not_c_and_x_spec (source self) cause x = 0
                    then 0
                    else of_nat (c_and_x_and_e_spec (source self) effect cause x)
                           / of_nat (c_and_x_spec (source self) cause x)
                         - of_nat (not_c_and_x_and_e_spec (source self) effect cause x)
                           / of_nat (not_c_and_x_spec (source self) cause x))\<bar>
             \<le> 3 / 2 ^ 53)"
proof -
  have 1: "prob_diff_loop (filter (\<lambda>r. isin (row_obs r) [cause, effect, x]) (source self)) effect cause x
     (unique (map row_case (filter (\<lambda>r. row_obs r = x)
        (filter (\<lambda>r. isin (row_obs r) [cause, effect, x]) (source self)))))
     (0, 0, 0, 0)
   = Inr (c_and_x_spec (source self) cause x, c_and_x_and_e_spec (source self) effect cause x,
          not_c_and_x_spec (source self) cause x,
          not_c_and_x_and_e_spec (source self) effect cause x)"
    by (rule prob_diff_counters)
  have 2: "calculate_probability_differences self effect cause x
           = Inr (delta_double (source self) effect cause x)"
    by (rule calculate_probability_differences_eq)
  have 3: "\<bar>delta_double (source self) effect cause x - delta_spec (source self) effect cause x\<bar>
           \<le> 3 / 2 ^ 53"
    by (rule delta_double_error)
  show ?thesis
    using 1 2 3 unfolding delta_double_def delta_spec_def by blast
qed

theorem probability_difference_doubles_witness:
  "calculate_probability_differences confounder_state ''B'' ''A'' ''Y'' = Inr 0
   \<and> calculate_probability_differences confounder_state ''B'' ''A'' ''X'' = Inr 1"
proof -
  have y: "c_and_x_spec (source confounder_state) ''A'' ''Y'' = 1"
    "not_c_and_x_spec (source confounder_state) ''A'' ''Y'' = 0"
    by code_simp+
  have x: "c_and_x_spec (source confounder_state) ''A'' ''X'' = 2"
    "c_and_x_and_e_spec (source confounder_state) ''B'' ''A'' ''X'' = 2"
    "not_c_and_x_spec (source confounder_state) ''A'' ''X'' = 1"
    "not_c_and_x_and_e_spec (source confounder_state) ''B'' ''A'' ''X'' = 0"
    by code_simp+
  have d: "double 1 = 1" "double 0 = 0" by code_simp+
  have 1: "calculate_probability_differences confounder_state ''B'' ''A'' ''Y'' = Inr 0"
    using probability_difference_doubles [of "''A''" "''B''" "''Y''" confounder_state,
        THEN conjunct2, THEN conjunct1]
    by (simp add: y)
  have 2: "calculate_probability_differences confounder_state ''B'' ''A'' ''X'' = Inr 1"
    using probability_difference_doubles [of "''A''" "''B''" "''X''" confounder_state,
        THEN conjunct2, THEN conjunct1]
    by (simp add: x d)
  show ?thesis using 1 2 by simp
qed

text \<open>
  The claim as the specification states it, with exact arithmetic, fails when a
  quotient is not a double: the counters end as 3, 1, 1 and 0, and the result is the
  double nearest to one third.
\<close>

theorem probability_difference_counterexample:
  "prob_diff_loop (filter (\<lambda>r. isin (row_obs r) [''A'', ''B'', ''X'']) (source thirds_state))
     ''B'' ''A'' ''X''
     (unique (map row_case (filter (\<lambda>r. row_obs r = ''X'')
        (filter (\<lambda>r. isin (row_obs r) [''A'', ''B'', ''X'']) (source thirds_state)))))
     (0, 0, 0, 0)
   = Inr (3, 1, 1, 0)
   \<and> calculate_probability_differences thirds_state ''B'' ''A'' ''X''
       = Inr (6004799503160661 / 18014398509481984)
   \<and> (6004799503160661 / 18014398509481984 :: rat) \<noteq> 1 / 3 - 0 / 1"
proof -
  have 1: "prob_diff_loop (filter (\<lambda>r. isin (row_obs r) [''A'', ''B'', ''X'']) (source thirds_state))
     ''B'' ''A'' ''X''
     (unique (map row_case (filter (\<lambda>r. row_obs r = ''X'')
        (filter (\<lambda>r. isin (row_obs r) [''A'', ''B'', ''X'']) (source thirds_state)))))
     (0, 0, 0, 0)
   = Inr (3, 1, 1, 0)"
    by code_simp
  have 2: "calculate_probability_differences thirds_state ''B'' ''A'' ''X''
       = Inr (6004799503160661 / 18014398509481984)"
    by code_simp
  show ?thesis using 1 2 by simp
qed

text \<open>
  Claim C3, as the code has it.  For an effect with an entry in \<open>prima_facie\<close>,
  \<open>get_epsilon_average\<close> returns the undefined score \<open>None\<close>, and no number, exactly when
  the entry has no cause other than the given one.  Otherwise it returns the mean, in
  double arithmetic, of the values that \<open>calculate_probability_differences\<close> returns for
  the members of the entry other than the cause, each taken as often as it occurs in
  the entry: the values are added in the order of the entry, starting from 0 and
  rounding each sum, and the total is divided by their number and rounded.
\<close>

theorem epsilon_average_doubles:
  assumes "prima_facie self effect = Some causes"
  shows "\<exists>\<Delta>. (\<forall>x. calculate_probability_differences self effect cause x = Inr (\<Delta> x))
       \<and> (get_epsilon_average self effect cause = Inr None \<longleftrightarrow> set causes - {cause} = {})
       \<and> (set causes - {cause} \<noteq> {} \<longrightarrow>
            get_epsilon_average self effect cause =
              Inr (Some (double
                     (foldl (\<lambda>eps_x d. double (eps_x + d)) 0
                        (map \<Delta> (filter (\<lambda>x. x \<noteq> cause) causes))
                      / double (of_nat (length (filter (\<lambda>x. x \<noteq> cause) causes)))))))"
proof -
  let ?\<Delta> = "delta_double (source self) effect cause"
  let ?others = "filter (\<lambda>x. x \<noteq> cause) causes"
  have so: "set ?others = set causes - {cause}" by auto
  have empty: "?others = [] \<longleftrightarrow> set causes - {cause} = {}"
    using so by (metis set_empty)
  have fa: "float_add = (\<lambda>eps_x d. double (eps_x + d))"
    by (intro ext) (simp add: float_add_def)
  have val: "get_epsilon_average self effect cause =
      (if ?others = [] then Inr None
       else Inr (Some (double (foldl (\<lambda>eps_x d. double (eps_x + d)) 0 (map ?\<Delta> ?others)
                               / double (of_nat (length ?others))))))"
    by (simp add: get_epsilon_average_eq assms Let_def fa)
  have 1: "\<forall>x. calculate_probability_differences self effect cause x = Inr (?\<Delta> x)"
    by (simp add: calculate_probability_differences_eq)
  have 2: "get_epsilon_average self effect cause = Inr None \<longleftrightarrow> set causes - {cause} = {}"
    unfolding val empty [symmetric] by simp
  have 3: "set causes - {cause} \<noteq> {} \<longrightarrow>
            get_epsilon_average self effect cause =
              Inr (Some (double (foldl (\<lambda>eps_x d. double (eps_x + d)) 0 (map ?\<Delta> ?others)
                                 / double (of_nat (length ?others)))))"
    unfolding val empty [symmetric] by simp
  show ?thesis using 1 2 3 by blast
qed

theorem epsilon_average_doubles_witness:
  "get_epsilon_average confounder_state ''B'' ''A'' = Inr (Some (1 / 2))
   \<and> get_epsilon_average ((init scenario_log)\<lparr>prima_facie := Map.empty(''B'' \<mapsto> [''A''])\<rparr>)
       ''B'' ''A'' = Inr None"
proof -
  let ?single = "(init scenario_log)\<lparr>prima_facie := Map.empty(''B'' \<mapsto> [''A''])\<rparr>"
  have pf: "prima_facie confounder_state ''B'' = Some [''A'', ''X'', ''Y'']"
    by (simp add: confounder_state_def)
  have dx: "calculate_probability_differences confounder_state ''B'' ''A'' ''X'' = Inr 1"
    and dy: "calculate_probability_differences confounder_state ''B'' ''A'' ''Y'' = Inr 0"
    by code_simp+
  from epsilon_average_doubles [OF pf, of "''A''"] obtain \<Delta> where
    d: "\<And>x. calculate_probability_differences confounder_state ''B'' ''A'' x = Inr (\<Delta> x)"
    and m: "set [''A'', ''X'', ''Y''] - {''A''} \<noteq> {} \<longrightarrow>
            get_epsilon_average confounder_state ''B'' ''A'' =
              Inr (Some (double
                     (foldl (\<lambda>eps_x d. double (eps_x + d)) 0
                        (map \<Delta> (filter (\<lambda>x. x \<noteq> ''A'') [''A'', ''X'', ''Y'']))
                      / double (of_nat (length (filter (\<lambda>x. x \<noteq> ''A'') [''A'', ''X'', ''Y'']))))))"
    by blast
  have vx: "\<Delta> ''X'' = 1" using d [of "''X''"] dx by simp
  have vy: "\<Delta> ''Y'' = 0" using d [of "''Y''"] dy by simp
  have ne: "set [''A'', ''X'', ''Y''] - {''A''} \<noteq> {}" by auto
  have r: "double (double (double (0 + 1) + 0) / double 2) = 1 / 2" by code_simp
  have 1: "get_epsilon_average confounder_state ''B'' ''A'' = Inr (Some (1 / 2))"
    using m ne r by (simp add: vx vy)
  have pf1: "prima_facie ?single ''B'' = Some [''A'']" by simp
  have 2: "get_epsilon_average ?single ''B'' ''A'' = Inr None"
    using epsilon_average_doubles [OF pf1, of "''A''"] by auto
  show ?thesis using 1 2 by simp
qed

text \<open>
  The claim as the specification states it fails on an entry that names a cause twice.
  The two methods of the class build the entry \<open>[A, X, X, Y]\<close> for \<open>B\<close> from a list of
  causes that proposes \<open>X\<close> twice.  The differences of \<open>A\<close> against \<open>X\<close> and \<open>Y\<close> are 1
  and 0, their mean over the set of the other causes is one half, and the score is the
  double nearest to two thirds.
\<close>

theorem epsilon_average_counterexample:
  "test_for_prima_facie duplicate_start = Inr duplicate_state
   \<and> prima_facie duplicate_state ''B'' = Some [''A'', ''X'', ''X'', ''Y'']
   \<and> set [''A'', ''X'', ''X'', ''Y''] - {''A''} = {''X'', ''Y''}
   \<and> calculate_probability_differences duplicate_state ''B'' ''A'' ''X'' = Inr 1
   \<and> calculate_probability_differences duplicate_state ''B'' ''A'' ''Y'' = Inr 0
   \<and> get_epsilon_average duplicate_state ''B'' ''A''
       = Inr (Some (6004799503160661 / 9007199254740992))
   \<and> (6004799503160661 / 9007199254740992 :: rat) \<noteq> (1 + 0) / 2"
proof -
  have inv: "traces duplicate_start = length (unique (map row_case (source duplicate_start)))"
    unfolding duplicate_start_def by (simp only: generate_hypotheses_keeps init_traces)
  have hyps: "hypotheses duplicate_start
              = [(''A'', ''B''), (''X'', ''B''), (''X'', ''B''), (''Y'', ''B'')]"
    by (simp add: duplicate_start_def generate_hypotheses_for_effects_def)
  have empty: "prima_facie duplicate_start = Map.empty"
    by (simp add: duplicate_start_def generate_hypotheses_for_effects_def init_def
          populate_vars_def)
  have acc: "accepted_double (source duplicate_start) ''A'' ''B''"
    "accepted_double (source duplicate_start) ''X'' ''B''"
    "accepted_double (source duplicate_start) ''Y'' ''B''"
    by code_simp+
  have fn: "(\<lambda>effect. if accepted_causes (source duplicate_start) (hypotheses duplicate_start) effect = []
               then prima_facie duplicate_start effect
               else Some (entry_of (prima_facie duplicate_start) effect
                          @ accepted_causes (source duplicate_start) (hypotheses duplicate_start) effect))
            = Map.empty(''B'' \<mapsto> [''A'', ''X'', ''X'', ''Y''])"
    by (intro ext) (simp add: hyps empty accepted_causes_Cons acc entry_of_def)
  have 1: "test_for_prima_facie duplicate_start = Inr duplicate_state"
    unfolding test_for_prima_facie_def prima_facie_loop_state [OF inv] fn
    by (simp add: duplicate_state_def)
  have 2: "calculate_probability_differences duplicate_state ''B'' ''A'' ''X'' = Inr 1"
    "calculate_probability_differences duplicate_state ''B'' ''A'' ''Y'' = Inr 0"
    "get_epsilon_average duplicate_state ''B'' ''A''
       = Inr (Some (6004799503160661 / 9007199254740992))"
    by code_simp+
  have 3: "set [''A'', ''X'', ''X'', ''Y''] - {''A''} = {''X'', ''Y''}" by auto
  show ?thesis using 1 2 3 by (simp add: duplicate_state_def)
qed

text \<open>
  Claim C7, as the code has it.  \<open>get_epsilon_average\<close> raises exactly when the effect
  has no entry in \<open>prima_facie\<close>, and what it raises then is the \<open>KeyError\<close> of the
  lookup.  When the effect has an entry it returns a number or the undefined score, for
  a cause that is in the entry and for one that is not; zero counts never make it
  raise.
\<close>

theorem get_epsilon_average_raises_iff:
  "((\<exists>e. get_epsilon_average self effect cause = Inl e) \<longleftrightarrow> prima_facie self effect = None)
   \<and> (prima_facie self effect = None \<longrightarrow> get_epsilon_average self effect cause = Inl KeyError)
   \<and> (\<forall>causes. prima_facie self effect = Some causes \<longrightarrow>
         (\<exists>score. get_epsilon_average self effect cause = Inr score))"
  by (cases "prima_facie self effect") (simp_all add: get_epsilon_average_eq Let_def)

theorem get_epsilon_average_raises_iff_witness:
  "get_epsilon_average confounder_state ''A'' ''B'' = Inl KeyError
   \<and> (\<exists>score. get_epsilon_average confounder_state ''B'' ''X'' = Inr score)"
proof -
  have none: "prima_facie confounder_state ''A'' = None"
    by (simp add: confounder_state_def)
  have some: "prima_facie confounder_state ''B'' = Some [''A'', ''X'', ''Y'']"
    by (simp add: confounder_state_def)
  show ?thesis
    using get_epsilon_average_raises_iff [of confounder_state "''A''" "''B''"]
      get_epsilon_average_raises_iff [of confounder_state "''B''" "''X''"] none some
    by simp
qed

text \<open>
  The claim as the specification states it fails for a cause that is not in the entry
  of the effect: \<open>C\<close> is not a prima-facie cause of \<open>B\<close>, and the evaluation returns a
  number, the mean over all three causes of the entry.
\<close>

theorem get_epsilon_average_counterexample:
  "prima_facie confounder_state ''B'' = Some [''A'', ''X'', ''Y'']
   \<and> ''C'' \<notin> set [''A'', ''X'', ''Y'']
   \<and> get_epsilon_average confounder_state ''B'' ''C'' = Inr (Some 0)"
proof -
  have "get_epsilon_average confounder_state ''B'' ''C'' = Inr (Some 0)"
    by code_simp
  then show ?thesis by (simp add: confounder_state_def)
qed

end
